theory Spec2Isabelle
  imports Complex_Main "HOL-Library.Char_ord" "HOL-Library.List_Lexorder" "HOL-Library.Option_ord"
begin

section \<open>Data model of starred-watcher.js\<close>

text \<open>
  A field of a fetched lifelog object as JavaScript sees it: absent (\<open>undefined\<close>),
  \<open>null\<close>, or a text. The source reads these fields with \<open>??\<close> and compares
  \<open>updatedAt\<close> with \<open>!==\<close>, which tells \<open>undefined\<close> from \<open>null\<close>.
\<close>

datatype jsval = JUndefined | JNull | JString string

text \<open>\<open>x ?? null\<close>\<close>

fun nullish :: "jsval \<Rightarrow> string option" where
  "nullish (JString s) = Some s"
| "nullish JUndefined = None"
| "nullish JNull = None"

text \<open>
  \<open>a === b\<close> for \<open>a\<close> read from a TEXT column (null or a text) and \<open>b\<close> a field
  of a fetched object.
\<close>

fun strict_eq :: "string option \<Rightarrow> jsval \<Rightarrow> bool" where
  "strict_eq None JNull = True"
| "strict_eq (Some a) (JString b) = (a = b)"
| "strict_eq _ _ = False"

text \<open>Truthiness of a text-or-null value: null and the empty text are falsy.\<close>

fun truthy :: "string option \<Rightarrow> bool" where
  "truthy None = False"
| "truthy (Some s) = (s \<noteq> [])"

text \<open>
  A JSON value. The column \<open>analysis_json\<close> holds \<open>JSON.stringify\<close> of such a value
  and is read back with \<open>JSON.parse\<close>; the model keeps the value itself in the column
  (the serialisation of a JSON value is never the empty text, and parsing it gives the
  value back). Numbers are kept as rationals.
\<close>

datatype json =
    JsNull
  | JsBool bool
  | JsNum rat
  | JsStr string
  | JsArr "json list"
  | JsObj "(string \<times> json) list"

text \<open>Truthiness of a JSON value.\<close>

fun json_truthy :: "json \<Rightarrow> bool" where
  "json_truthy JsNull = False"
| "json_truthy (JsBool b) = b"
| "json_truthy (JsNum n) = (n \<noteq> 0)"
| "json_truthy (JsStr s) = (s \<noteq> [])"
| "json_truthy (JsArr _) = True"
| "json_truthy (JsObj _) = True"

text \<open>\<open>v?.k\<close>: the member \<open>k\<close> of an object, \<open>undefined\<close> (here \<open>None\<close>) otherwise.\<close>

fun member :: "json option \<Rightarrow> string \<Rightarrow> json option" where
  "member (Some (JsObj kvs)) k = map_of kvs k"
| "member _ k = None"

text \<open>The lifelog object of the listing endpoint, as far as the program reads it.\<close>

record lifelog =
  l_id :: string
  l_title :: jsval
  l_markdown :: jsval
  l_startTime :: jsval
  l_endTime :: jsval
  l_updatedAt :: jsval
  l_isStarred :: bool

text \<open>
  Timestamps written by \<open>datetime('now')\<close> are readings of a logical clock.
\<close>

type_synonym timestamp = nat

text \<open>
  The object built by \<open>lifelogToRow\<close> and bound by \<open>upsertLifelog\<close>: the eleven
  columns an upsert writes. \<open>isStarred\<close> is the INTEGER 0 or 1.
\<close>

record row =
  row_id :: string
  title :: "string option"
  markdown :: "string option"
  startTime :: "string option"
  endTime :: "string option"
  updatedAt :: "string option"
  isStarred :: nat
  analysis_json :: "json option"
  webhook_last_updatedAt :: "string option"
  webhook_status :: "nat option"
  webhook_sent_at :: "timestamp option"

text \<open>A row of table \<open>lifelogs\<close>: the same columns and the two audit columns.\<close>

record stored = row +
  inserted_at :: timestamp
  last_seen_at :: timestamp

text \<open>Table \<open>lifelogs\<close>, keyed by its primary key \<open>id\<close>.\<close>

type_synonym lifelogs_table = "string \<rightharpoonup> stored"

section \<open>Store operations\<close>

text \<open>SQL \<open>COALESCE(excluded.c, lifelogs.c)\<close>\<close>

fun coalesce :: "'a option \<Rightarrow> 'a option \<Rightarrow> 'a option" where
  "coalesce (Some a) b = Some a"
| "coalesce None b = b"

text \<open>
  \<open>upsertLifelog\<close> (lines 75-101): INSERT of the eleven bound values with
  \<open>last_seen_at = datetime('now')\<close> (and \<open>inserted_at\<close> by its column default, also
  \<open>datetime('now')\<close>); ON CONFLICT(id) the listed columns are updated.
\<close>

definition upsertLifelog :: "timestamp \<Rightarrow> row \<Rightarrow> lifelogs_table \<Rightarrow> lifelogs_table" where
  "upsertLifelog now r db =
     (case db (row_id r) of
        None \<Rightarrow>
          db(row_id r \<mapsto>
            \<lparr> row_id = row_id r, title = title r, markdown = markdown r,
              startTime = startTime r, endTime = endTime r, updatedAt = updatedAt r,
              isStarred = isStarred r, analysis_json = analysis_json r,
              webhook_last_updatedAt = webhook_last_updatedAt r,
              webhook_status = webhook_status r, webhook_sent_at = webhook_sent_at r,
              inserted_at = now, last_seen_at = now \<rparr>)
      | Some old \<Rightarrow>
          db(row_id r \<mapsto>
            old\<lparr> title := title r, markdown := markdown r,
                 startTime := startTime r, endTime := endTime r, updatedAt := updatedAt r,
                 isStarred := isStarred r,
                 analysis_json := coalesce (analysis_json r) (analysis_json old),
                 webhook_last_updatedAt :=
                   coalesce (webhook_last_updatedAt r) (webhook_last_updatedAt old),
                 webhook_status := coalesce (webhook_status r) (webhook_status old),
                 webhook_sent_at := coalesce (webhook_sent_at r) (webhook_sent_at old),
                 last_seen_at := now \<rparr>))"

text \<open>\<open>findById\<close> (lines 103-110)\<close>

definition findById :: "string \<Rightarrow> lifelogs_table \<Rightarrow> stored option" where
  "findById i db = db i"

text \<open>\<open>markWebhook\<close> (lines 112-119): an UPDATE ... WHERE id=?, no row when the id is absent.\<close>

definition markWebhook ::
  "timestamp \<Rightarrow> string option \<Rightarrow> nat \<Rightarrow> string \<Rightarrow> lifelogs_table \<Rightarrow> lifelogs_table" where
  "markWebhook now upd status i db =
     (case db i of
        None \<Rightarrow> db
      | Some old \<Rightarrow>
          db(i \<mapsto> old\<lparr> webhook_last_updatedAt := upd, webhook_status := Some status,
                        webhook_sent_at := Some now \<rparr>))"

text \<open>\<open>setAnalysis\<close> (lines 121-128)\<close>

definition setAnalysis :: "json \<Rightarrow> string \<Rightarrow> lifelogs_table \<Rightarrow> lifelogs_table" where
  "setAnalysis a i db =
     (case db i of
        None \<Rightarrow> db
      | Some old \<Rightarrow> db(i \<mapsto> old\<lparr> analysis_json := Some a \<rparr>))"

text \<open>
  The statement \<open>UPDATE lifelogs SET last_seen_at=datetime('now') WHERE id=?\<close> of lines
  259 and 333 (the touch of an unchanged record).
\<close>

definition touch :: "timestamp \<Rightarrow> string \<Rightarrow> lifelogs_table \<Rightarrow> lifelogs_table" where
  "touch now i db =
     (case db i of
        None \<Rightarrow> db
      | Some old \<Rightarrow> db(i \<mapsto> old\<lparr> last_seen_at := now \<rparr>))"

text \<open>\<open>lifelogToRow\<close> (lines 146-160)\<close>

definition lifelogToRow :: "lifelog \<Rightarrow> row" where
  "lifelogToRow l =
     \<lparr> row_id = l_id l,
       title = nullish (l_title l),
       markdown = nullish (l_markdown l),
       startTime = nullish (l_startTime l),
       endTime = nullish (l_endTime l),
       updatedAt = nullish (l_updatedAt l),
       isStarred = (if l_isStarred l then 1 else 0),
       analysis_json = None,
       webhook_last_updatedAt = None,
       webhook_status = None,
       webhook_sent_at = None \<rparr>"

text \<open>
  The reconciliation of one fetched lifelog against the table (lines 253-261 and
  328-334): insert when absent, upsert when \<open>updatedAt\<close> or \<open>isStarred\<close> differ,
  touch otherwise.
\<close>

definition reconcile :: "timestamp \<Rightarrow> lifelog \<Rightarrow> lifelogs_table \<Rightarrow> lifelogs_table" where
  "reconcile now l db =
     (case findById (l_id l) db of
        None \<Rightarrow> upsertLifelog now (lifelogToRow l) db
      | Some existing \<Rightarrow>
          if \<not> strict_eq (updatedAt existing) (l_updatedAt l)
             \<or> isStarred existing \<noteq> (if l_isStarred l then 1 else 0)
          then upsertLifelog now (lifelogToRow l) db
          else touch now (l_id l) db)"

text \<open>A row with its \<open>last_seen_at\<close> blanked, to compare rows up to that column.\<close>

definition forget_last_seen :: "stored \<Rightarrow> stored" where
  "forget_last_seen s = s\<lparr> last_seen_at := 0 \<rparr>"

section \<open>HTTP and the retrying fetcher\<close>

text \<open>
  What \<open>await fetch(...)\<close> gives: the promise rejects (a network-level failure), or it
  resolves to a response with a status code and a body.
\<close>

datatype 'b fetch_result = NetworkError | Response nat 'b

text \<open>\<open>r.ok\<close>\<close>

definition ok :: "nat \<Rightarrow> bool" where
  "ok status = (200 \<le> status \<and> status \<le> 299)"

text \<open>
  The errors the program throws. \<open>HttpError\<close> is \<open>Error(`HTTP ${r.status} ...`)\<close> (the
  body text of the message is left out), \<open>RetryExhausted\<close> is
  \<open>Error('fetchWithRetry exhausted')\<close>, \<open>OpenAIError\<close> is \<open>Error(`OpenAI ${r.status}`)\<close>,
  \<open>FetchFailed\<close> is the rejection of \<open>fetch\<close> itself, \<open>BodyNotJson\<close> the rejection of
  \<open>r.json()\<close>, and \<open>NoRow\<close> the TypeError of reading a column of an absent row.
\<close>

datatype error =
    FetchFailed
  | HttpError nat
  | RetryExhausted
  | OpenAIError nat
  | BodyNotJson
  | NoRow

text \<open>
  The result of \<open>fetchWithRetry\<close>, with what it did on the way: the delays it slept
  (milliseconds, in order) and the number of calls of \<open>fetch\<close> it made.
\<close>

record 'b retry_result =
  outcome :: "error + (nat \<times> 'b)"
  sleeps :: "nat list"
  attempts :: nat

text \<open>
  \<open>fetchWithRetry\<close> (lines 135-144). \<open>fetch i\<close> is the outcome of the call of
  \<open>fetch(url, opts)\<close> in iteration \<open>i\<close> of the for loop; the loop variable \<open>i\<close> and the
  delays slept so far are the arguments, \<open>maxn\<close> is the parameter \<open>max\<close>.
\<close>

function fetchWithRetry_from ::
  "(nat \<Rightarrow> 'b fetch_result) \<Rightarrow> nat \<Rightarrow> nat \<Rightarrow> nat list \<Rightarrow> 'b retry_result" where
  "fetchWithRetry_from fetch maxn i slept =
     (if i < maxn then
        (case fetch i of
           NetworkError \<Rightarrow> \<lparr> outcome = Inl FetchFailed, sleeps = slept, attempts = i + 1 \<rparr>
         | Response status body \<Rightarrow>
             if status = 429
             then fetchWithRetry_from fetch maxn (i + 1) (slept @ [1000 * (i + 1) * 2])
             else if ok status
             then \<lparr> outcome = Inr (status, body), sleeps = slept, attempts = i + 1 \<rparr>
             else if status \<ge> 500 \<and> int i < int maxn - 1
             then fetchWithRetry_from fetch maxn (i + 1) (slept @ [500 * (i + 1)])
             else \<lparr> outcome = Inl (HttpError status), sleeps = slept, attempts = i + 1 \<rparr>)
      else \<lparr> outcome = Inl RetryExhausted, sleeps = slept, attempts = i \<rparr>)"
  by pat_completeness auto
termination
  by (relation "measure (\<lambda>(fetch, maxn, i, slept). maxn - i)") auto

definition fetchWithRetry :: "(nat \<Rightarrow> 'b fetch_result) \<Rightarrow> nat \<Rightarrow> 'b retry_result" where
  "fetchWithRetry fetch maxn = fetchWithRetry_from fetch maxn 0 []"

text \<open>The status of a response; a rejected fetch has none.\<close>

fun status_of :: "'b fetch_result \<Rightarrow> nat option" where
  "status_of NetworkError = None"
| "status_of (Response status body) = Some status"

section \<open>The outside world\<close>

text \<open>The JSON body of the listing endpoint, as \<open>pageStarred\<close> reads it.\<close>

record page =
  lifelogs :: "lifelog list"
  nextCursor :: "string option"

text \<open>The body of the POST to the primary webhook (lines 272-282 and 345-355).\<close>

record payload =
  p_source :: string
  lifelogId :: string
  p_title :: "string option"
  p_startTime :: "string option"
  p_endTime :: "string option"
  p_updatedAt :: "string option"
  p_isStarred :: bool
  analysis :: "json option"
  markdownPreview :: "string option"

text \<open>The body of the POST to the second webhook (lines 289-299 and 362-372).\<close>

record payload2 =
  s_source :: string
  s_lifelogId :: string
  s_title :: "string option"
  s_startTime :: "string option"
  s_endTime :: "string option"
  s_updatedAt :: "string option"
  s_isStarred :: bool
  chatGPTSummary :: string
  originalAnalysis :: "json option"

text \<open>
  The configuration constants of lines 8-17 and the behaviour of the remote services.
  Every call of \<open>fetch\<close> happens at a tick of a logical clock (the number of calls made
  before it), and a service answers as a function of the tick and of the request, so that
  a service may answer the same request differently at different times.
  \<open>fetch_lifelogs\<close> is the listing endpoint (the request is its cursor; the body is
  \<open>None\<close> when it is not JSON), \<open>fetch_sentiment\<close> and \<open>fetch_summary\<close> are the two
  chat-completion calls (the body is \<open>None\<close> when it is not JSON, and else the text of
  \<open>choices[0].message.content\<close> when there is one), \<open>fetch_webhook\<close> and
  \<open>fetch_webhook2\<close> the two sinks. \<open>JSON_parse\<close> is \<open>JSON.parse\<close>, \<open>None\<close> where it
  throws.
\<close>

record env =
  OPENAI_API_KEY :: "string option"
  WEBHOOK_URL_2 :: "string option"
  MAX_PAGES_PER_RUN :: int
  BACKFILL_SEND_WEBHOOK :: bool
  fetch_lifelogs :: "nat \<Rightarrow> string option \<Rightarrow> page option fetch_result"
  fetch_sentiment :: "nat \<Rightarrow> string \<Rightarrow> string option option fetch_result"
  JSON_parse :: "string \<Rightarrow> json option"
  fetch_summary :: "nat \<Rightarrow> json option \<Rightarrow> string option \<Rightarrow> string option option fetch_result"
  fetch_webhook :: "nat \<Rightarrow> payload \<Rightarrow> unit fetch_result"
  fetch_webhook2 :: "nat \<Rightarrow> payload2 \<Rightarrow> unit fetch_result"

text \<open>
  The state the program works on: the two tables, the clock, and the record of the POSTs
  made to the two sinks, each with the status answered or \<open>None\<close> when the fetch was
  rejected. \<open>datetime('now')\<close> reads the clock.
\<close>

record world =
  db :: lifelogs_table
  kv :: "string \<rightharpoonup> string"
  tick :: nat
  posts :: "(payload \<times> nat option) list"
  posts2 :: "(payload2 \<times> nat option) list"

text \<open>\<open>kvGet\<close> and \<open>kvSet\<close> (lines 57-73)\<close>

definition kvGet :: "string \<Rightarrow> world \<Rightarrow> string option" where
  "kvGet k w = kv w k"

definition kvSet :: "string \<Rightarrow> string \<Rightarrow> world \<Rightarrow> world" where
  "kvSet k v w = w\<lparr> kv := (kv w)(k \<mapsto> v) \<rparr>"

text \<open>\<open>clip\<close> (line 132)\<close>

fun clip :: "string option \<Rightarrow> nat \<Rightarrow> string option" where
  "clip None n = None"
| "clip (Some s) n = (if s = [] then Some s else if length s > n then Some (take n s) else Some s)"

text \<open>\<open>String.prototype.trim\<close>, on the ASCII white space.\<close>

definition is_space :: "char \<Rightarrow> bool" where
  "is_space c = (c \<in> set [CHR '' '', CHR 0x09, CHR 0x0A, CHR 0x0B, CHR 0x0C, CHR 0x0D])"

definition trim :: "string \<Rightarrow> string" where
  "trim s = rev (dropWhile is_space (rev (dropWhile is_space s)))"

text \<open>
  \<open>pageStarred\<close> (lines 226-241), always called with \<open>limit = 10\<close>: the cursor goes into
  the query only when it is truthy; the request is made through \<open>fetchWithRetry\<close> with
  its default of 3 attempts.
\<close>

definition pageStarred :: "env \<Rightarrow> string option \<Rightarrow> world \<Rightarrow> world \<times> (error + page)" where
  "pageStarred env cursor w =
     (let r = fetchWithRetry
                (\<lambda>i. fetch_lifelogs env (tick w + i) (if truthy cursor then cursor else None)) 3;
          w' = w\<lparr> tick := tick w + attempts r \<rparr>
      in case outcome r of
           Inl e \<Rightarrow> (w', Inl e)
         | Inr (status, body) \<Rightarrow>
             (case body of
                None \<Rightarrow> (w', Inl BodyNotJson)
              | Some j \<Rightarrow> (w', Inr j)))"

text \<open>The object returned when no API key is configured (line 163).\<close>

definition unscored :: json where
  "unscored = JsObj [(''sentiment'', JsStr ''unscored''), (''confidence'', JsNum 0),
                     (''summary'', JsStr [])]"

text \<open>\<open>callOpenAI\<close> (lines 162-184); the argument is the markdown of the row.\<close>

definition callOpenAI :: "env \<Rightarrow> string \<Rightarrow> world \<Rightarrow> world \<times> (error + json)" where
  "callOpenAI env md w =
     (if \<not> truthy (OPENAI_API_KEY env) then (w, Inr unscored)
      else
        let w' = w\<lparr> tick := tick w + 1 \<rparr> in
        case fetch_sentiment env (tick w) (take 6000 md) of
          NetworkError \<Rightarrow> (w', Inl FetchFailed)
        | Response status body \<Rightarrow>
            if \<not> ok status then (w', Inl (OpenAIError status))
            else
              (case body of
                 None \<Rightarrow> (w', Inl BodyNotJson)
               | Some content \<Rightarrow>
                   let text = (case content of
                                 None \<Rightarrow> ''{}''
                               | Some c \<Rightarrow> if trim c = [] then ''{}'' else trim c)
                   in (case JSON_parse env text of
                         Some v \<Rightarrow> (w', Inr v)
                       | None \<Rightarrow>
                           (w', Inr (JsObj [(''sentiment'', JsStr ''neutral''),
                                            (''confidence'', JsNum (1 / 2)),
                                            (''summary'', JsStr (take 120 text))])))))"

text \<open>
  \<open>createChatGPTSummary\<close> (lines 186-213): every failure is caught and gives null.
\<close>

definition createChatGPTSummary ::
  "env \<Rightarrow> json option \<Rightarrow> string option \<Rightarrow> world \<Rightarrow> world \<times> string option" where
  "createChatGPTSummary env summary preview w =
     (if \<not> truthy (OPENAI_API_KEY env) \<or> \<not> truthy (WEBHOOK_URL_2 env) then (w, None)
      else
        let w' = w\<lparr> tick := tick w + 1 \<rparr> in
        case fetch_summary env (tick w) summary preview of
          NetworkError \<Rightarrow> (w', None)
        | Response status body \<Rightarrow>
            if \<not> ok status then (w', None)
            else
              (case body of
                 None \<Rightarrow> (w', None)
               | Some content \<Rightarrow>
                   (case content of
                      None \<Rightarrow> (w', None)
                    | Some c \<Rightarrow> if trim c = [] then (w', None) else (w', Some (trim c)))))"

text \<open>\<open>postWebhook\<close> (lines 215-218): the status, or the rejection of the fetch.\<close>

definition postWebhook :: "env \<Rightarrow> payload \<Rightarrow> world \<Rightarrow> world \<times> (error + nat)" where
  "postWebhook env p w =
     (case fetch_webhook env (tick w) p of
        NetworkError \<Rightarrow>
          (w\<lparr> tick := tick w + 1, posts := posts w @ [(p, None)] \<rparr>, Inl FetchFailed)
      | Response status body \<Rightarrow>
          (w\<lparr> tick := tick w + 1, posts := posts w @ [(p, Some status)] \<rparr>, Inr status))"

text \<open>\<open>postWebhook2\<close> (lines 220-224)\<close>

definition postWebhook2 :: "env \<Rightarrow> payload2 \<Rightarrow> world \<Rightarrow> world \<times> (error + nat option)" where
  "postWebhook2 env p w =
     (if \<not> truthy (WEBHOOK_URL_2 env) then (w, Inr None)
      else
        case fetch_webhook2 env (tick w) p of
          NetworkError \<Rightarrow>
            (w\<lparr> tick := tick w + 1, posts2 := posts2 w @ [(p, None)] \<rparr>, Inl FetchFailed)
        | Response status body \<Rightarrow>
            (w\<lparr> tick := tick w + 1, posts2 := posts2 w @ [(p, Some status)] \<rparr>,
             Inr (Some status)))"

section \<open>Processing one fetched record\<close>

text \<open>
  The loop bodies of \<open>fullBackfill\<close> (lines 253-309) and of \<open>incrementalScan\<close> (lines
  328-381) are the same statements; in the backfill the dispatch is inside
  \<open>if (BACKFILL_SEND_WEBHOOK)\<close>. The counters of both functions only feed their log lines
  and are left out, but for \<open>pages\<close>.
\<close>

text \<open>The primary key: the row found under an id carries that id.\<close>

definition wf_table :: "lifelogs_table \<Rightarrow> bool" where
  "wf_table t = (\<forall>k r. t k = Some r \<longrightarrow> row_id r = k)"

text \<open>
  "sentiment if missing" (lines 263-267 and 336-340): a failure of \<open>callOpenAI\<close> is caught
  and logged.
\<close>

definition annotate :: "env \<Rightarrow> lifelog \<Rightarrow> world \<Rightarrow> world \<times> error option" where
  "annotate env l w =
     (case findById (l_id l) (db w) of
        None \<Rightarrow> (w, Some NoRow)
      | Some current \<Rightarrow>
          if analysis_json current = None then
            (case callOpenAI env (case markdown current of None \<Rightarrow> [] | Some m \<Rightarrow> m) w of
               (w', Inr a) \<Rightarrow> (w'\<lparr> db := setAnalysis a (l_id l) (db w') \<rparr>, None)
             | (w', Inl e) \<Rightarrow> (w', None))
          else (w, None))"

definition primary_payload :: "stored \<Rightarrow> payload" where
  "primary_payload c2 =
     \<lparr> p_source = ''limitless-starred'',
       lifelogId = row_id c2,
       p_title = title c2,
       p_startTime = startTime c2,
       p_endTime = endTime c2,
       p_updatedAt = updatedAt c2,
       p_isStarred = (isStarred c2 \<noteq> 0),
       analysis = analysis_json c2,
       markdownPreview = clip (markdown c2) 4000 \<rparr>"

definition secondary_payload :: "stored \<Rightarrow> string \<Rightarrow> payload2" where
  "secondary_payload c2 summary =
     \<lparr> s_source = ''limitless-starred-summary'',
       s_lifelogId = row_id c2,
       s_title = title c2,
       s_startTime = startTime c2,
       s_endTime = endTime c2,
       s_updatedAt = updatedAt c2,
       s_isStarred = (isStarred c2 \<noteq> 0),
       chatGPTSummary = summary,
       originalAnalysis = analysis_json c2 \<rparr>"

text \<open>
  The second webhook (lines 285-304 and 358-377): inside try/catch, so its failures are
  logged and nothing is thrown.
\<close>

definition secondary :: "env \<Rightarrow> stored \<Rightarrow> world \<Rightarrow> world" where
  "secondary env c2 w =
     (if truthy (WEBHOOK_URL_2 env)
         \<and> (case member (analysis_json c2) ''summary'' of
               None \<Rightarrow> False
             | Some v \<Rightarrow> json_truthy v)
      then
        (case createChatGPTSummary env (member (analysis_json c2) ''summary'')
                (clip (markdown c2) 4000) w of
           (w1, None) \<Rightarrow> w1
         | (w1, Some summary) \<Rightarrow>
             if summary \<noteq> [] then fst (postWebhook2 env (secondary_payload c2 summary) w1)
             else w1)
      else w)"

text \<open>
  The dispatch (lines 269-308 and 342-381): a rejection of the primary fetch is not
  caught here and leaves the function.
\<close>

definition dispatch :: "env \<Rightarrow> lifelog \<Rightarrow> world \<Rightarrow> world \<times> error option" where
  "dispatch env l w =
     (case findById (l_id l) (db w) of
        None \<Rightarrow> (w, Some NoRow)
      | Some c2 \<Rightarrow>
          if webhook_last_updatedAt c2 \<noteq> updatedAt c2 then
            (case postWebhook env (primary_payload c2) w of
               (w1, Inl e) \<Rightarrow> (w1, Some e)
             | (w1, Inr status) \<Rightarrow>
                 (let w2 = secondary env c2 w1
                  in (w2\<lparr> db := markWebhook (tick w2) (updatedAt c2) status (row_id c2) (db w2) \<rparr>,
                      None)))
          else (w, None))"

definition processRecord :: "bool \<Rightarrow> env \<Rightarrow> lifelog \<Rightarrow> world \<Rightarrow> world \<times> error option" where
  "processRecord notify env l w =
     (case annotate env l (w\<lparr> db := reconcile (tick w) l (db w) \<rparr>) of
        (w2, Some e) \<Rightarrow> (w2, Some e)
      | (w2, None) \<Rightarrow> if notify then dispatch env l w2 else (w2, None))"

text \<open>\<open>for (const l of lifelogs) { ... }\<close>: a thrown error ends the loop.\<close>

fun for_each ::
  "(lifelog \<Rightarrow> world \<Rightarrow> world \<times> error option) \<Rightarrow> lifelog list \<Rightarrow> world \<Rightarrow> world \<times> error option" where
  "for_each f [] w = (w, None)"
| "for_each f (l # ls) w =
     (case f l w of
        (w', Some e) \<Rightarrow> (w', Some e)
      | (w', None) \<Rightarrow> for_each f ls w')"

section \<open>The two traversals\<close>

text \<open>
  How a traversal ended: the state it left, the error that ended it (if one did), and the
  values of its variables \<open>pages\<close> and \<open>cursor\<close> at that moment.
\<close>

record run_result =
  final :: world
  failure :: "error option"
  pages_done :: nat
  last_cursor :: "string option"

text \<open>
  The do-while loop of \<open>fullBackfill\<close> (lines 247-312), entered with the values of
  \<open>pages\<close> and \<open>cursor\<close>.
\<close>

function backfill_from :: "env \<Rightarrow> nat \<Rightarrow> string option \<Rightarrow> world \<Rightarrow> run_result" where
  "backfill_from env pages cursor w =
     (case pageStarred env cursor w of
        (w1, Inl e) \<Rightarrow>
          \<lparr> final = w1, failure = Some e, pages_done = pages + 1, last_cursor = cursor \<rparr>
      | (w1, Inr j) \<Rightarrow>
          (case for_each (processRecord (BACKFILL_SEND_WEBHOOK env) env) (lifelogs j) w1 of
             (w2, Some e) \<Rightarrow>
               \<lparr> final = w2, failure = Some e, pages_done = pages + 1,
                 last_cursor = nextCursor j \<rparr>
           | (w2, None) \<Rightarrow>
               if truthy (nextCursor j) \<and> pages + 1 < 1000
               then backfill_from env (pages + 1) (nextCursor j) w2
               else \<lparr> final = w2, failure = None, pages_done = pages + 1,
                      last_cursor = nextCursor j \<rparr>))"
  by pat_completeness auto
termination
  by (relation "measure (\<lambda>(env, pages, cursor, w). 1000 - pages)") auto

text \<open>
  \<open>fullBackfill\<close> (lines 243-315): after the loop, \<open>kvSet('backfill_done', '1')\<close>.
\<close>

definition fullBackfill :: "env \<Rightarrow> world \<Rightarrow> run_result" where
  "fullBackfill env w =
     (let r = backfill_from env 0 None w
      in case failure r of
           Some e \<Rightarrow> r
         | None \<Rightarrow> r\<lparr> final := kvSet ''backfill_done'' ''1'' (final r) \<rparr>)"

text \<open>
  The early-stop test (lines 387-392). \<open>upToDateCount / lifelogs.length >= 0.8\<close> is
  taken exactly, as \<open>4 * length \<le> 5 * count\<close>; the page is not empty there.
\<close>

definition upToDate :: "world \<Rightarrow> lifelog \<Rightarrow> bool" where
  "upToDate w l =
     (case findById (l_id l) (db w) of
        None \<Rightarrow> False
      | Some r \<Rightarrow>
          strict_eq (updatedAt r) (l_updatedAt l)
          \<and> webhook_last_updatedAt r = updatedAt r
          \<and> analysis_json r \<noteq> None)"

definition upToDateCount :: "world \<Rightarrow> lifelog list \<Rightarrow> nat" where
  "upToDateCount w ls = length (filter (upToDate w) ls)"

definition early_stop :: "world \<Rightarrow> lifelog list \<Rightarrow> bool" where
  "early_stop w ls = (4 * length ls \<le> 5 * upToDateCount w ls)"

text \<open>
  The while loop of \<open>incrementalScan\<close> (lines 321-395), entered with the values of
  \<open>pages\<close> and \<open>cursor\<close>.
\<close>

function scan_from :: "env \<Rightarrow> nat \<Rightarrow> string option \<Rightarrow> world \<Rightarrow> run_result" where
  "scan_from env pages cursor w =
     (if int pages < MAX_PAGES_PER_RUN env then
        (case pageStarred env cursor w of
           (w1, Inl e) \<Rightarrow>
             \<lparr> final = w1, failure = Some e, pages_done = pages + 1, last_cursor = cursor \<rparr>
         | (w1, Inr j) \<Rightarrow>
             if lifelogs j = []
             then \<lparr> final = w1, failure = None, pages_done = pages + 1,
                    last_cursor = nextCursor j \<rparr>
             else
               (case for_each (processRecord True env) (lifelogs j) w1 of
                  (w2, Some e) \<Rightarrow>
                    \<lparr> final = w2, failure = Some e, pages_done = pages + 1,
                      last_cursor = nextCursor j \<rparr>
                | (w2, None) \<Rightarrow>
                    if pages + 1 \<ge> 3 \<and> early_stop w2 (lifelogs j)
                    then \<lparr> final = w2, failure = None, pages_done = pages + 1,
                           last_cursor = nextCursor j \<rparr>
                    else if \<not> truthy (nextCursor j)
                    then \<lparr> final = w2, failure = None, pages_done = pages + 1,
                           last_cursor = nextCursor j \<rparr>
                    else scan_from env (pages + 1) (nextCursor j) w2))
      else \<lparr> final = w, failure = None, pages_done = pages, last_cursor = cursor \<rparr>)"
  by pat_completeness auto
termination
  by (relation "measure (\<lambda>(env, pages, cursor, w). nat (MAX_PAGES_PER_RUN env - int pages))") auto

text \<open>\<open>incrementalScan\<close> (lines 317-397)\<close>

definition incrementalScan :: "env \<Rightarrow> world \<Rightarrow> run_result" where
  "incrementalScan env w = scan_from env 0 None w"

text \<open>
  The start of \<open>main\<close> (lines 400-401): a full backfill runs unless the flag is '1'.
\<close>

definition backfill_needed :: "world \<Rightarrow> bool" where
  "backfill_needed w = (kvGet ''backfill_done'' w \<noteq> Some ''1'')"

text \<open>
  A run of either kind, and a sequence of runs on the same tables: what a run leaves
  behind, also when an error ended it, is what the next one starts from.
\<close>

datatype run = FullBackfill | IncrementalScan

fun exec_run :: "env \<Rightarrow> run \<Rightarrow> world \<Rightarrow> world" where
  "exec_run env FullBackfill w = final (fullBackfill env w)"
| "exec_run env IncrementalScan w = final (incrementalScan env w)"

fun exec_runs :: "env \<Rightarrow> run list \<Rightarrow> world \<Rightarrow> world" where
  "exec_runs env [] w = w"
| "exec_runs env (r # rs) w = exec_runs env rs (exec_run env r w)"

text \<open>The state of a fresh installation.\<close>

definition fresh :: world where
  "fresh = \<lparr> db = Map.empty, kv = Map.empty, tick = 0, posts = [], posts2 = [] \<rparr>"

section \<open>Notions used to state the properties\<close>

text \<open>The version a fetched record is stored with: \<open>l.updatedAt ?? null\<close>.\<close>

definition ver :: "lifelog \<Rightarrow> string option" where
  "ver l = nullish (l_updatedAt l)"

text \<open>The row of an id exists and has an annotation.\<close>

definition annotated :: "lifelogs_table \<Rightarrow> string \<Rightarrow> bool" where
  "annotated t k = (case t k of None \<Rightarrow> False | Some r \<Rightarrow> analysis_json r \<noteq> None)"

text \<open>The version last notified for an id; null also when there is no row.\<close>

definition notified :: "lifelogs_table \<Rightarrow> string \<Rightarrow> string option" where
  "notified t k = (case t k of None \<Rightarrow> None | Some r \<Rightarrow> webhook_last_updatedAt r)"

text \<open>
  What a POST to the primary sink was about: the id and the version in its payload. A POST
  is answered when the sink returned a status (any status).
\<close>

definition post_key :: "payload \<times> nat option \<Rightarrow> string \<times> string option" where
  "post_key a = (lifelogId (fst a), p_updatedAt (fst a))"

definition is_answered :: "payload \<times> nat option \<Rightarrow> bool" where
  "is_answered a = (snd a \<noteq> None)"

definition answered :: "(payload \<times> nat option) list \<Rightarrow> (payload \<times> nat option) list" where
  "answered ps = filter is_answered ps"

definition attempt_of :: "payload \<times> nat option \<Rightarrow> string \<times> string option \<times> nat option" where
  "attempt_of a = (lifelogId (fst a), p_updatedAt (fst a), snd a)"

text \<open>
  The listing endpoint shows id \<open>k\<close> at version \<open>v\<close> at tick \<open>t\<close>: some successful
  answer it gives at that tick holds a record with that id and version.
\<close>

definition observed :: "env \<Rightarrow> nat \<Rightarrow> string \<Rightarrow> string option \<Rightarrow> bool" where
  "observed env t k v =
     (\<exists>c s pg. fetch_lifelogs env t c = Response s (Some pg) \<and> ok s
        \<and> (\<exists>l \<in> set (lifelogs pg). l_id l = k \<and> ver l = v))"

text \<open>
  The versions of an id never decrease at the source, in the order of texts (null below
  every text): what is shown later is not below what was shown earlier.
\<close>

definition mono_source :: "env \<Rightarrow> bool" where
  "mono_source env =
     (\<forall>t1 t2 k v1 v2. t1 \<le> t2 \<and> observed env t1 k v1 \<and> observed env t2 k v2 \<longrightarrow> v1 \<le> v2)"

text \<open>
  The invariant of the tables and the record of POSTs behind the at-most-once property,
  relative to the tick \<open>T\<close> of the latest page fetched: no two answered POSTs are about the
  same id and version; an answered POST is about a version not above the one last notified
  for its id; a row's notified version is not above its version; every stored version
  was shown by the source no later than \<open>T\<close>; and every POST recorded has the outcome the
  sink gave it.
\<close>

definition once_inv :: "env \<Rightarrow> nat \<Rightarrow> world \<Rightarrow> bool" where
  "once_inv env T w =
     (wf_table (db w) \<and> T \<le> tick w
      \<and> distinct (map post_key (answered (posts w)))
      \<and> (\<forall>a \<in> set (answered (posts w)). snd (post_key a) \<le> notified (db w) (fst (post_key a)))
      \<and> (\<forall>k r. db w k = Some r \<longrightarrow> webhook_last_updatedAt r \<le> updatedAt r)
      \<and> (\<forall>k r. db w k = Some r \<longrightarrow> (\<exists>t \<le> T. observed env t k (updatedAt r)))
      \<and> (\<forall>a \<in> set (posts w). \<exists>t. snd a = status_of (fetch_webhook env t (fst a))))"


section \<open>Sample data\<close>

text \<open>A row as \<open>lifelogToRow\<close> builds it, and a row as the table may hold it.\<close>

definition sample_row :: "string \<Rightarrow> string \<Rightarrow> row" where
  "sample_row i v =
     \<lparr> row_id = i, title = Some ''title'', markdown = Some ''text'', startTime = None,
       endTime = None, updatedAt = Some v, isStarred = 1, analysis_json = None,
       webhook_last_updatedAt = None, webhook_status = None, webhook_sent_at = None \<rparr>"

definition sample_stored :: "string \<Rightarrow> string \<Rightarrow> stored" where
  "sample_stored i v =
     \<lparr> row_id = i, title = Some ''old title'', markdown = Some ''old text'', startTime = None,
       endTime = None, updatedAt = Some v, isStarred = 1, analysis_json = Some unscored,
       webhook_last_updatedAt = Some v, webhook_status = Some 200, webhook_sent_at = Some 5,
       inserted_at = 1, last_seen_at = 5 \<rparr>"

text \<open>A starred lifelog with an id and a version, as the listing endpoint returns it.\<close>

definition sample_lifelog :: "string \<Rightarrow> string \<Rightarrow> lifelog" where
  "sample_lifelog i v =
     \<lparr> l_id = i, l_title = JString ''title'', l_markdown = JString ''text'',
       l_startTime = JNull, l_endTime = JUndefined, l_updatedAt = JString v,
       l_isStarred = True \<rparr>"

text \<open>
  A configuration with the defaults of lines 15-17, no OpenAI key and no second webhook,
  around a listing endpoint and a primary sink.
\<close>

definition plain_env ::
  "(nat \<Rightarrow> string option \<Rightarrow> page option fetch_result) \<Rightarrow> (nat \<Rightarrow> payload \<Rightarrow> unit fetch_result) \<Rightarrow> env" where
  "plain_env source sink =
     \<lparr> OPENAI_API_KEY = None, WEBHOOK_URL_2 = None, MAX_PAGES_PER_RUN = 25,
       BACKFILL_SEND_WEBHOOK = False, fetch_lifelogs = source,
       fetch_sentiment = (\<lambda>t md. NetworkError), JSON_parse = (\<lambda>s. None),
       fetch_summary = (\<lambda>t s p. NetworkError), fetch_webhook = sink,
       fetch_webhook2 = (\<lambda>t p. NetworkError) \<rparr>"

text \<open>A sink that answers every POST with 200, and one that cannot be reached.\<close>

definition accepting_sink :: "nat \<Rightarrow> payload \<Rightarrow> unit fetch_result" where
  "accepting_sink t p = Response 200 ()"

definition unreachable_sink :: "nat \<Rightarrow> payload \<Rightarrow> unit fetch_result" where
  "unreachable_sink t p = NetworkError"

text \<open>
  A collection that never ends: the page after cursor \<open>c\<close> holds one record, named after
  the cursor, and a next cursor one character longer.
\<close>

definition endless_source :: "nat \<Rightarrow> string option \<Rightarrow> page option fetch_result" where
  "endless_source t c =
     Response 200
       (Some \<lparr> lifelogs = [sample_lifelog (case c of None \<Rightarrow> [] | Some s \<Rightarrow> s) ''v1''],
               nextCursor = Some (CHR ''c'' # (case c of None \<Rightarrow> [] | Some s \<Rightarrow> s)) \<rparr>)"

definition endless_env :: env where
  "endless_env = plain_env endless_source accepting_sink"

text \<open>A listing endpoint that cannot be reached.\<close>

definition dead_source :: "nat \<Rightarrow> string option \<Rightarrow> page option fetch_result" where
  "dead_source t c = NetworkError"

text \<open>The collection of three starred records, all at version v1, on one page.\<close>

definition three_records :: page where
  "three_records =
     \<lparr> lifelogs = [sample_lifelog ''a'' ''v1'', sample_lifelog ''b'' ''v1'',
                   sample_lifelog ''c'' ''v1''],
       nextCursor = None \<rparr>"

definition three_source :: "nat \<Rightarrow> string option \<Rightarrow> page option fetch_result" where
  "three_source t c = Response 200 (Some three_records)"

definition three_env :: env where
  "three_env = plain_env three_source accepting_sink"

text \<open>The three records behind a primary sink that cannot be reached.\<close>

definition offline_env :: env where
  "offline_env = plain_env three_source unreachable_sink"

text \<open>
  One starred record on one page, behind a primary sink that cannot be reached before
  tick 2 and answers 200 from then on.
\<close>

definition one_source :: "nat \<Rightarrow> string option \<Rightarrow> page option fetch_result" where
  "one_source t c =
     Response 200 (Some \<lparr> lifelogs = [sample_lifelog ''a'' ''v1''], nextCursor = None \<rparr>)"

definition flaky_sink :: "nat \<Rightarrow> payload \<Rightarrow> unit fetch_result" where
  "flaky_sink t p = (if t < 2 then NetworkError else Response 200 ())"

definition flaky_env :: env where
  "flaky_env = plain_env one_source flaky_sink"

text \<open>
  The row of \<open>sample_lifelog i v\<close> once it has been inserted at time \<open>t\<close> and annotated
  without an OpenAI key, and the payload of its POST.
\<close>

definition fetched_row :: "string \<Rightarrow> string \<Rightarrow> timestamp \<Rightarrow> stored" where
  "fetched_row i v t =
     \<lparr> row_id = i, title = Some ''title'', markdown = Some ''text'', startTime = None,
       endTime = None, updatedAt = Some v, isStarred = 1, analysis_json = Some unscored,
       webhook_last_updatedAt = None, webhook_status = None, webhook_sent_at = None,
       inserted_at = t, last_seen_at = t \<rparr>"

definition sample_payload :: "string \<Rightarrow> string \<Rightarrow> payload" where
  "sample_payload i v =
     \<lparr> p_source = ''limitless-starred'', lifelogId = i, p_title = Some ''title'',
       p_startTime = None, p_endTime = None, p_updatedAt = Some v, p_isStarred = True,
       analysis = Some unscored, markdownPreview = Some ''text'' \<rparr>"

text \<open>
  Four starred records on four pages of one record each, linked by the cursors 2, 3
  and 4; the collection does not change over time.
\<close>

definition four_source :: "nat \<Rightarrow> string option \<Rightarrow> page option fetch_result" where
  "four_source t c =
     Response 200
       (Some (if c = None
              then \<lparr> lifelogs = [sample_lifelog ''a'' ''v1''], nextCursor = Some ''2'' \<rparr>
              else if c = Some ''2''
              then \<lparr> lifelogs = [sample_lifelog ''b'' ''v1''], nextCursor = Some ''3'' \<rparr>
              else if c = Some ''3''
              then \<lparr> lifelogs = [sample_lifelog ''c'' ''v1''], nextCursor = Some ''4'' \<rparr>
              else \<lparr> lifelogs = [sample_lifelog ''d'' ''v1''], nextCursor = None \<rparr>))"

definition four_env :: env where
  "four_env = plain_env four_source accepting_sink"

text \<open>
  One starred record whose version changes at the source from v1 to v2 at tick 2, behind
  a sink that answers.
\<close>

definition changing_source :: "nat \<Rightarrow> string option \<Rightarrow> page option fetch_result" where
  "changing_source t c =
     Response 200
       (Some \<lparr> lifelogs = [sample_lifelog ''a'' (if t < 2 then ''v1'' else ''v2'')],
               nextCursor = None \<rparr>)"

definition changing_env :: env where
  "changing_env = plain_env changing_source accepting_sink"

section \<open>Verification\<close>

declare fetchWithRetry_from.simps [simp del]
declare backfill_from.simps [simp del]
declare scan_from.simps [simp del]

subsection \<open>The store\<close>

lemma coalesce_idem: "coalesce a (coalesce a b) = coalesce a b"
  by (cases a) simp_all

lemma coalesce_self: "coalesce a a = a"
  by (cases a) simp_all

text \<open>
  Claim C4. \<open>upsertLifelog\<close> inserts the row when the id is absent (both audit columns
  set to now). When the id is present it overwrites title, markdown, startTime, endTime,
  updatedAt and isStarred, keeps the stored analysis_json, webhook_last_updatedAt,
  webhook_status and webhook_sent_at where the incoming value is null (and takes the
  incoming value where it is not), sets last_seen_at to now and leaves inserted_at as it
  was. No other row changes.
\<close>

theorem upsertLifelog_fields:
  "(tbl (row_id r) = None \<longrightarrow>
      upsertLifelog now r tbl (row_id r) =
        Some \<lparr> row_id = row_id r, title = title r, markdown = markdown r,
               startTime = startTime r, endTime = endTime r, updatedAt = updatedAt r,
               isStarred = isStarred r, analysis_json = analysis_json r,
               webhook_last_updatedAt = webhook_last_updatedAt r,
               webhook_status = webhook_status r, webhook_sent_at = webhook_sent_at r,
               inserted_at = now, last_seen_at = now \<rparr>)
   \<and> (\<forall>old. tbl (row_id r) = Some old \<longrightarrow>
        (\<exists>new. upsertLifelog now r tbl (row_id r) = Some new
           \<and> row_id new = row_id old
           \<and> title new = title r \<and> markdown new = markdown r
           \<and> startTime new = startTime r \<and> endTime new = endTime r
           \<and> updatedAt new = updatedAt r \<and> isStarred new = isStarred r
           \<and> (analysis_json r = None \<longrightarrow> analysis_json new = analysis_json old)
           \<and> (webhook_last_updatedAt r = None \<longrightarrow>
                 webhook_last_updatedAt new = webhook_last_updatedAt old)
           \<and> (webhook_status r = None \<longrightarrow> webhook_status new = webhook_status old)
           \<and> (webhook_sent_at r = None \<longrightarrow> webhook_sent_at new = webhook_sent_at old)
           \<and> (analysis_json r \<noteq> None \<longrightarrow> analysis_json new = analysis_json r)
           \<and> (webhook_last_updatedAt r \<noteq> None \<longrightarrow>
                 webhook_last_updatedAt new = webhook_last_updatedAt r)
           \<and> (webhook_status r \<noteq> None \<longrightarrow> webhook_status new = webhook_status r)
           \<and> (webhook_sent_at r \<noteq> None \<longrightarrow> webhook_sent_at new = webhook_sent_at r)
           \<and> last_seen_at new = now
           \<and> inserted_at new = inserted_at old))
   \<and> (\<forall>k. k \<noteq> row_id r \<longrightarrow> upsertLifelog now r tbl k = tbl k)"
  by (auto simp: upsertLifelog_def split: option.splits)

theorem upsertLifelog_fields_witness:
  "upsertLifelog 9 (sample_row ''a'' ''v2'') Map.empty ''a'' =
     Some \<lparr> row_id = ''a'', title = Some ''title'', markdown = Some ''text'', startTime = None,
            endTime = None, updatedAt = Some ''v2'', isStarred = 1, analysis_json = None,
            webhook_last_updatedAt = None, webhook_status = None, webhook_sent_at = None,
            inserted_at = 9, last_seen_at = 9 \<rparr>
   \<and> (\<exists>new. upsertLifelog 9 (sample_row ''a'' ''v2'') [''a'' \<mapsto> sample_stored ''a'' ''v1''] ''a''
              = Some new
         \<and> title new = Some ''title'' \<and> markdown new = Some ''text''
         \<and> updatedAt new = Some ''v2''
         \<and> analysis_json new = Some unscored
         \<and> webhook_last_updatedAt new = Some ''v1''
         \<and> webhook_status new = Some 200
         \<and> webhook_sent_at new = Some 5
         \<and> last_seen_at new = 9
         \<and> inserted_at new = 1)
   \<and> upsertLifelog 9 (sample_row ''a'' ''v2'') [''a'' \<mapsto> sample_stored ''a'' ''v1''] ''b'' = None"
proof -
  note ins = upsertLifelog_fields[of Map.empty "sample_row ''a'' ''v2''" 9, THEN conjunct1]
  note upd = upsertLifelog_fields[of "[''a'' \<mapsto> sample_stored ''a'' ''v1'']" "sample_row ''a'' ''v2''" 9,
      THEN conjunct2, THEN conjunct1, rule_format, of "sample_stored ''a'' ''v1''"]
  note oth = upsertLifelog_fields[of "[''a'' \<mapsto> sample_stored ''a'' ''v1'']" "sample_row ''a'' ''v2''" 9,
      THEN conjunct2, THEN conjunct2, rule_format, of "''b''"]
  have A: "upsertLifelog 9 (sample_row ''a'' ''v2'') Map.empty ''a'' =
     Some \<lparr> row_id = ''a'', title = Some ''title'', markdown = Some ''text'', startTime = None,
            endTime = None, updatedAt = Some ''v2'', isStarred = 1, analysis_json = None,
            webhook_last_updatedAt = None, webhook_status = None, webhook_sent_at = None,
            inserted_at = 9, last_seen_at = 9 \<rparr>"
    using ins by (simp add: sample_row_def)
  have B: "\<exists>new. upsertLifelog 9 (sample_row ''a'' ''v2'') [''a'' \<mapsto> sample_stored ''a'' ''v1''] ''a''
              = Some new
         \<and> title new = Some ''title'' \<and> markdown new = Some ''text''
         \<and> updatedAt new = Some ''v2''
         \<and> analysis_json new = Some unscored
         \<and> webhook_last_updatedAt new = Some ''v1''
         \<and> webhook_status new = Some 200
         \<and> webhook_sent_at new = Some 5
         \<and> last_seen_at new = 9
         \<and> inserted_at new = 1"
    using upd by (auto simp: sample_row_def sample_stored_def)
  have C: "upsertLifelog 9 (sample_row ''a'' ''v2'') [''a'' \<mapsto> sample_stored ''a'' ''v1''] ''b'' = None"
    using oth by (simp add: sample_row_def)
  show ?thesis using A B C by blast
qed

text \<open>
  Claim C8. The touch of a stored row changes its last_seen_at and nothing else: every
  other column of the row, and every other row, is as before; and the touch is what
  \<open>reconcile\<close> does when the fetched record has the stored updatedAt and isStarred.
\<close>

theorem touch_changes_only_last_seen_at:
  "(\<forall>old. tbl i = Some old \<longrightarrow>
      (\<exists>new. touch now i tbl i = Some new
         \<and> last_seen_at new = now
         \<and> row_id new = row_id old
         \<and> title new = title old \<and> markdown new = markdown old
         \<and> startTime new = startTime old \<and> endTime new = endTime old
         \<and> updatedAt new = updatedAt old \<and> isStarred new = isStarred old
         \<and> analysis_json new = analysis_json old
         \<and> webhook_last_updatedAt new = webhook_last_updatedAt old
         \<and> webhook_status new = webhook_status old
         \<and> webhook_sent_at new = webhook_sent_at old
         \<and> inserted_at new = inserted_at old))
   \<and> (tbl i = None \<longrightarrow> touch now i tbl = tbl)
   \<and> (\<forall>k. k \<noteq> i \<longrightarrow> touch now i tbl k = tbl k)
   \<and> (\<forall>existing. findById (l_id l) tbl = Some existing
         \<and> strict_eq (updatedAt existing) (l_updatedAt l)
         \<and> isStarred existing = (if l_isStarred l then 1 else 0)
        \<longrightarrow> reconcile now l tbl = touch now (l_id l) tbl)"
  by (auto simp: touch_def reconcile_def split: option.splits)

theorem touch_changes_only_last_seen_at_witness:
  "(\<exists>new. touch 9 ''a'' [''a'' \<mapsto> sample_stored ''a'' ''v1''] ''a'' = Some new
       \<and> last_seen_at new = 9
       \<and> title new = Some ''old title'' \<and> markdown new = Some ''old text''
       \<and> updatedAt new = Some ''v1'' \<and> isStarred new = 1
       \<and> analysis_json new = Some unscored
       \<and> webhook_last_updatedAt new = Some ''v1''
       \<and> webhook_status new = Some 200
       \<and> webhook_sent_at new = Some 5
       \<and> inserted_at new = 1)
   \<and> touch 9 ''a'' Map.empty = Map.empty
   \<and> touch 9 ''a'' [''a'' \<mapsto> sample_stored ''a'' ''v1''] ''b'' = None
   \<and> reconcile 9 (sample_lifelog ''a'' ''v1'') [''a'' \<mapsto> sample_stored ''a'' ''v1'']
       = touch 9 ''a'' [''a'' \<mapsto> sample_stored ''a'' ''v1'']"
proof -
  let ?t = "[''a'' \<mapsto> sample_stored ''a'' ''v1'']"
  note th = touch_changes_only_last_seen_at[of ?t "''a''" 9 "sample_lifelog ''a'' ''v1''"]
  note th0 = touch_changes_only_last_seen_at[of Map.empty "''a''" 9 "sample_lifelog ''a'' ''v1''"]
  have A: "\<exists>new. touch 9 ''a'' ?t ''a'' = Some new
       \<and> last_seen_at new = 9
       \<and> title new = Some ''old title'' \<and> markdown new = Some ''old text''
       \<and> updatedAt new = Some ''v1'' \<and> isStarred new = 1
       \<and> analysis_json new = Some unscored
       \<and> webhook_last_updatedAt new = Some ''v1''
       \<and> webhook_status new = Some 200
       \<and> webhook_sent_at new = Some 5
       \<and> inserted_at new = 1"
    using th[THEN conjunct1, rule_format, of "sample_stored ''a'' ''v1''"]
    by (auto simp: sample_stored_def)
  have B: "touch 9 ''a'' Map.empty = Map.empty"
    using th0[THEN conjunct2, THEN conjunct1] by simp
  have C: "touch 9 ''a'' ?t ''b'' = None"
    using th[THEN conjunct2, THEN conjunct2, THEN conjunct1, rule_format, of "''b''"] by simp
  have D: "reconcile 9 (sample_lifelog ''a'' ''v1'') ?t = touch 9 ''a'' ?t"
    using th[THEN conjunct2, THEN conjunct2, THEN conjunct2, rule_format,
             of "sample_stored ''a'' ''v1''"]
    by (simp add: sample_stored_def sample_lifelog_def findById_def)
  show ?thesis using A B C D by blast
qed

text \<open>
  Claim C9. Upserting the same row twice leaves the table as upserting it once does,
  up to last_seen_at.
\<close>

theorem upsertLifelog_twice:
  "map_option forget_last_seen (upsertLifelog t2 r (upsertLifelog t1 r tbl) k)
     = map_option forget_last_seen (upsertLifelog t1 r tbl k)"
  by (auto simp: upsertLifelog_def forget_last_seen_def coalesce_idem coalesce_self
           split: option.splits)

theorem upsertLifelog_twice_witness:
  "map_option forget_last_seen
     (upsertLifelog 9 (sample_row ''a'' ''v2'')
        (upsertLifelog 7 (sample_row ''a'' ''v2'') [''a'' \<mapsto> sample_stored ''a'' ''v1'']) ''a'')
   = map_option forget_last_seen
       (upsertLifelog 7 (sample_row ''a'' ''v2'') [''a'' \<mapsto> sample_stored ''a'' ''v1''] ''a'')
   \<and> map_option last_seen_at
       (upsertLifelog 9 (sample_row ''a'' ''v2'')
          (upsertLifelog 7 (sample_row ''a'' ''v2'') [''a'' \<mapsto> sample_stored ''a'' ''v1'']) ''a'')
     = Some 9
   \<and> map_option last_seen_at
       (upsertLifelog 7 (sample_row ''a'' ''v2'') [''a'' \<mapsto> sample_stored ''a'' ''v1''] ''a'')
     = Some 7"
  using upsertLifelog_twice[of 9 "sample_row ''a'' ''v2''" 7 "[''a'' \<mapsto> sample_stored ''a'' ''v1'']" "''a''"]
  by (simp add: upsertLifelog_def sample_row_def sample_stored_def)

subsection \<open>The retrying fetcher\<close>

lemma retry_429_run:
  "(\<forall>j. i \<le> j \<and> j < i + k \<longrightarrow> status_of (fetch j) = Some 429) \<Longrightarrow> i + k \<le> maxn \<Longrightarrow>
   fetchWithRetry_from fetch maxn i slept =
     fetchWithRetry_from fetch maxn (i + k) (slept @ map (\<lambda>j. 2000 * (j + 1)) [i..<i + k])"
proof (induction k arbitrary: i slept)
  case 0
  then show ?case by simp
next
  case (Suc k)
  from Suc.prems have st: "status_of (fetch i) = Some 429" by simp
  then obtain body where fi: "fetch i = Response 429 body"
    by (cases "fetch i") auto
  have lt: "i < maxn" using Suc.prems by simp
  have step: "fetchWithRetry_from fetch maxn i slept =
      fetchWithRetry_from fetch maxn (i + 1) (slept @ [1000 * (i + 1) * 2])"
    by (subst fetchWithRetry_from.simps) (simp add: fi lt)
  have rest: "fetchWithRetry_from fetch maxn (i + 1) (slept @ [1000 * (i + 1) * 2]) =
      fetchWithRetry_from fetch maxn (i + 1 + k)
        ((slept @ [1000 * (i + 1) * 2]) @ map (\<lambda>j. 2000 * (j + 1)) [i + 1..<i + 1 + k])"
    by (rule Suc.IH) (use Suc.prems in auto)
  have up: "[i..<i + Suc k] = i # [i + 1..<i + 1 + k]"
    by (simp add: upt_conv_Cons)
  show ?case unfolding step rest up by simp
qed

lemma retry_attempts_le:
  "i \<le> maxn \<Longrightarrow> attempts (fetchWithRetry_from fetch maxn i slept) \<le> maxn"
proof (induction fetch maxn i slept rule: fetchWithRetry_from.induct)
  case (1 fetch maxn i slept)
  show ?case
  proof (cases "i < maxn")
    case False
    then show ?thesis using "1.prems"
      by (subst fetchWithRetry_from.simps) simp
  next
    case True
    show ?thesis
    proof (cases "fetch i")
      case NetworkError
      then show ?thesis using True by (subst fetchWithRetry_from.simps) simp
    next
      case (Response status body)
      then show ?thesis using True "1.IH"(1)[OF True Response] "1.IH"(2)[OF True Response]
        by (subst fetchWithRetry_from.simps) auto
    qed
  qed
qed

lemma retry_exhausted_last:
  "outcome (fetchWithRetry_from fetch maxn i slept) = Inl RetryExhausted \<Longrightarrow> i \<le> maxn \<Longrightarrow>
   attempts (fetchWithRetry_from fetch maxn i slept) = maxn
   \<and> (i < maxn \<longrightarrow> status_of (fetch (maxn - 1)) = Some 429)"
proof (induction fetch maxn i slept rule: fetchWithRetry_from.induct)
  case (1 fetch maxn i slept)
  show ?case
  proof (cases "i < maxn")
    case False
    then show ?thesis using "1.prems"
      by (subst fetchWithRetry_from.simps) simp
  next
    case True
    show ?thesis
    proof (cases "fetch i")
      case NetworkError
      then show ?thesis using True "1.prems"(1) by (subst (asm) fetchWithRetry_from.simps) simp
    next
      case (Response status body)
      show ?thesis
      proof (cases "status = 429")
        case s: True
        have eq: "fetchWithRetry_from fetch maxn i slept =
                  fetchWithRetry_from fetch maxn (i + 1) (slept @ [1000 * (i + 1) * 2])"
          by (subst fetchWithRetry_from.simps) (simp add: True Response s)
        have ih: "attempts (fetchWithRetry_from fetch maxn (i + 1) (slept @ [1000 * (i + 1) * 2])) = maxn
          \<and> (i + 1 < maxn \<longrightarrow> status_of (fetch (maxn - 1)) = Some 429)"
          using "1.IH"(1)[OF True Response s] "1.prems" True unfolding eq by simp
        have "i + 1 < maxn \<or> i = maxn - 1" using True by arith
        then show ?thesis using ih Response s unfolding eq by auto
      next
        case ns: False
        show ?thesis
        proof (cases "ok status")
          case True
          then show ?thesis using \<open>i < maxn\<close> Response ns "1.prems"(1)
            by (subst (asm) fetchWithRetry_from.simps) simp
        next
          case nok: False
          show ?thesis
          proof (cases "status \<ge> 500 \<and> int i < int maxn - 1")
            case c: True
            have eq: "fetchWithRetry_from fetch maxn i slept =
                  fetchWithRetry_from fetch maxn (i + 1) (slept @ [500 * (i + 1)])"
              by (subst fetchWithRetry_from.simps) (simp add: True Response ns nok c)
            have ih: "attempts (fetchWithRetry_from fetch maxn (i + 1) (slept @ [500 * (i + 1)])) = maxn
              \<and> (i + 1 < maxn \<longrightarrow> status_of (fetch (maxn - 1)) = Some 429)"
              using "1.IH"(2)[OF True Response ns nok c] "1.prems" True unfolding eq by simp
            have "i + 1 < maxn" using c by arith
            then show ?thesis using ih unfolding eq by auto
          next
            case False
            then show ?thesis using \<open>i < maxn\<close> Response ns nok "1.prems"(1)
              by (subst (asm) fetchWithRetry_from.simps) (simp split: if_splits)
          qed
        qed
      qed
    qed
  qed
qed

text \<open>
  Claim C6. A 429 is answered by sleeping \<open>2000 * (i + 1)\<close> ms in iteration \<open>i\<close> and
  trying again; no more than \<open>maxn\<close> calls of fetch are made; a success after \<open>k\<close>
  rate-limited attempts is returned as it is, after the delays 2000, 4000, ...; when all
  \<open>maxn\<close> attempts are rate limited the function fails with the exhausted error, and that
  error comes only after \<open>maxn\<close> attempts, the last of them a 429. For 429, 429, 200
  the delays are 2000 and 4000 and the 200 is returned.
\<close>

theorem fetchWithRetry_rate_limit:
  "attempts (fetchWithRetry fetch maxn) \<le> maxn
   \<and> (\<forall>k s b. k < maxn \<and> (\<forall>j<k. status_of (fetch j) = Some 429) \<and> fetch k = Response s b \<and> ok s
        \<longrightarrow> fetchWithRetry fetch maxn =
              \<lparr> outcome = Inr (s, b), sleeps = map (\<lambda>j. 2000 * (j + 1)) [0..<k],
                attempts = k + 1 \<rparr>)
   \<and> ((\<forall>j<maxn. status_of (fetch j) = Some 429)
        \<longrightarrow> fetchWithRetry fetch maxn =
              \<lparr> outcome = Inl RetryExhausted, sleeps = map (\<lambda>j. 2000 * (j + 1)) [0..<maxn],
                attempts = maxn \<rparr>)
   \<and> (outcome (fetchWithRetry fetch maxn) = Inl RetryExhausted
        \<longrightarrow> attempts (fetchWithRetry fetch maxn) = maxn
            \<and> (0 < maxn \<longrightarrow> status_of (fetch (maxn - 1)) = Some 429))
   \<and> fetchWithRetry (\<lambda>i. if i < 2 then Response 429 b1 else Response 200 b2) 3 =
        \<lparr> outcome = Inr (200, b2), sleeps = [2000, 4000], attempts = 3 \<rparr>"
proof (intro conjI allI impI)
  show "attempts (fetchWithRetry fetch maxn) \<le> maxn"
    unfolding fetchWithRetry_def by (rule retry_attempts_le) simp
next
  fix k s b
  assume h: "k < maxn \<and> (\<forall>j<k. status_of (fetch j) = Some 429) \<and> fetch k = Response s b \<and> ok s"
  have run: "fetchWithRetry_from fetch maxn 0 [] =
     fetchWithRetry_from fetch maxn (0 + k) ([] @ map (\<lambda>j. 2000 * (j + 1)) [0..<0 + k])"
    by (rule retry_429_run) (use h in auto)
  have "s \<noteq> 429" using h by (auto simp: ok_def)
  then show "fetchWithRetry fetch maxn =
      \<lparr> outcome = Inr (s, b), sleeps = map (\<lambda>j. 2000 * (j + 1)) [0..<k], attempts = k + 1 \<rparr>"
    unfolding fetchWithRetry_def run using h
    by (subst fetchWithRetry_from.simps) simp
next
  assume h: "\<forall>j<maxn. status_of (fetch j) = Some 429"
  have run: "fetchWithRetry_from fetch maxn 0 [] =
     fetchWithRetry_from fetch maxn (0 + maxn) ([] @ map (\<lambda>j. 2000 * (j + 1)) [0..<0 + maxn])"
    by (rule retry_429_run) (use h in auto)
  show "fetchWithRetry fetch maxn =
      \<lparr> outcome = Inl RetryExhausted, sleeps = map (\<lambda>j. 2000 * (j + 1)) [0..<maxn],
        attempts = maxn \<rparr>"
    unfolding fetchWithRetry_def run
    by (subst fetchWithRetry_from.simps) simp
next
  assume h: "outcome (fetchWithRetry fetch maxn) = Inl RetryExhausted"
  then show "attempts (fetchWithRetry fetch maxn) = maxn"
    unfolding fetchWithRetry_def using retry_exhausted_last[of fetch maxn 0 "[]"] by simp
next
  assume h: "outcome (fetchWithRetry fetch maxn) = Inl RetryExhausted" and "0 < maxn"
  then show "status_of (fetch (maxn - 1)) = Some 429"
    unfolding fetchWithRetry_def using retry_exhausted_last[of fetch maxn 0 "[]"] by simp
next
  let ?f = "\<lambda>i::nat. if i < 2 then Response 429 b1 else Response 200 b2"
  have run: "fetchWithRetry_from ?f 3 0 [] =
     fetchWithRetry_from ?f 3 (0 + 2) ([] @ map (\<lambda>j. 2000 * (j + 1)) [0..<0 + 2])"
    by (rule retry_429_run) auto
  have l: "[0..<2] = [0, Suc 0]" by (simp add: upt_conv_Cons)
  show "fetchWithRetry ?f 3 = \<lparr> outcome = Inr (200, b2), sleeps = [2000, 4000], attempts = 3 \<rparr>"
    unfolding fetchWithRetry_def run
    by (subst fetchWithRetry_from.simps) (simp add: ok_def l)
qed

theorem fetchWithRetry_rate_limit_witness:
  "fetchWithRetry (\<lambda>i. if i < 1 then Response 429 ''slow down'' else Response 204 ''page'') 2 =
     \<lparr> outcome = Inr (204, ''page''), sleeps = [2000], attempts = 2 \<rparr>
   \<and> fetchWithRetry (\<lambda>i. Response 429 ''slow down'') 2 =
       \<lparr> outcome = Inl RetryExhausted, sleeps = [2000, 4000], attempts = 2 \<rparr>
   \<and> status_of ((\<lambda>i::nat. Response 429 ''slow down'') (2 - 1)) = Some 429"
proof -
  let ?f = "\<lambda>i::nat. if i < 1 then Response 429 ''slow down'' else Response 204 ''page''"
  let ?g = "\<lambda>i::nat. Response 429 ''slow down''"
  have l1: "[0..<1] = [0]" and l2: "[0..<2] = [0, Suc 0]" by (simp_all add: upt_conv_Cons)
  note a = fetchWithRetry_rate_limit[of ?f 2, THEN conjunct2, THEN conjunct1, rule_format, of 1 204 "''page''"]
  note b = fetchWithRetry_rate_limit[of ?g 2, THEN conjunct2, THEN conjunct2, THEN conjunct1, rule_format]
  note c = fetchWithRetry_rate_limit[of ?g 2, THEN conjunct2, THEN conjunct2, THEN conjunct2, THEN conjunct1, rule_format]
  have A: "fetchWithRetry ?f 2 = \<lparr> outcome = Inr (204, ''page''), sleeps = [2000], attempts = 2 \<rparr>"
    using a by (simp add: ok_def l1)
  have B: "fetchWithRetry ?g 2 = \<lparr> outcome = Inl RetryExhausted, sleeps = [2000, 4000], attempts = 2 \<rparr>"
    using b by (simp add: l2)
  have C: "status_of (?g (2 - 1)) = Some 429"
    using c B by simp
  show ?thesis using A B C by simp
qed

subsection \<open>What each operation leaves alone\<close>

lemma pageStarred_frame:
  "db (fst (pageStarred env c w)) = db w"
  "kv (fst (pageStarred env c w)) = kv w"
  "posts (fst (pageStarred env c w)) = posts w"
  "tick w \<le> tick (fst (pageStarred env c w))"
  by (auto simp: pageStarred_def Let_def split: sum.splits option.splits prod.splits)

lemma callOpenAI_frame:
  "db (fst (callOpenAI env md w)) = db w"
  "kv (fst (callOpenAI env md w)) = kv w"
  "posts (fst (callOpenAI env md w)) = posts w"
  "tick w \<le> tick (fst (callOpenAI env md w))"
  by (auto simp: callOpenAI_def Let_def split: fetch_result.splits option.splits)

lemma createChatGPTSummary_frame:
  "db (fst (createChatGPTSummary env s p w)) = db w"
  "kv (fst (createChatGPTSummary env s p w)) = kv w"
  "posts (fst (createChatGPTSummary env s p w)) = posts w"
  "tick w \<le> tick (fst (createChatGPTSummary env s p w))"
  by (auto simp: createChatGPTSummary_def Let_def split: fetch_result.splits option.splits)

lemma postWebhook2_frame:
  "db (fst (postWebhook2 env p w)) = db w"
  "kv (fst (postWebhook2 env p w)) = kv w"
  "posts (fst (postWebhook2 env p w)) = posts w"
  "tick w \<le> tick (fst (postWebhook2 env p w))"
  by (auto simp: postWebhook2_def split: fetch_result.splits)

lemma secondary_frame:
  "db (secondary env c2 w) = db w"
  "kv (secondary env c2 w) = kv w"
  "posts (secondary env c2 w) = posts w"
  "tick w \<le> tick (secondary env c2 w)"
proof -
  obtain w1 s where c: "createChatGPTSummary env (member (analysis_json c2) ''summary'')
                (clip (markdown c2) 4000) w = (w1, s)" by (cases "createChatGPTSummary env (member (analysis_json c2) ''summary'')
                (clip (markdown c2) 4000) w") 
  have w1: "db w1 = db w" "kv w1 = kv w" "posts w1 = posts w" "tick w \<le> tick w1"
    using createChatGPTSummary_frame[where env = env and s = "member (analysis_json c2) ''summary''"
        and p = "clip (markdown c2) 4000" and w = w]
    by (simp_all add: c)
  show "db (secondary env c2 w) = db w" "kv (secondary env c2 w) = kv w"
    "posts (secondary env c2 w) = posts w"
    by (auto simp: secondary_def c w1 postWebhook2_frame split: option.splits)
  show "tick w \<le> tick (secondary env c2 w)"
    using w1(4) postWebhook2_frame(4)[where w = w1 and env = env] 
    by (auto simp: secondary_def c  split: option.splits intro: order_trans)
qed

lemma postWebhook_frame:
  "db (fst (postWebhook env p w)) = db w"
  "kv (fst (postWebhook env p w)) = kv w"
  "tick w \<le> tick (fst (postWebhook env p w))"
  by (auto simp: postWebhook_def split: fetch_result.splits)

lemma annotate_kv: "kv (fst (annotate env l w)) = kv w"
proof (cases "findById (l_id l) (db w)")
  case None
  then show ?thesis by (simp add: annotate_def)
next
  case (Some current)
  obtain w' r where c: "callOpenAI env (case markdown current of None \<Rightarrow> [] | Some m \<Rightarrow> m) w = (w', r)"
    by (cases "callOpenAI env (case markdown current of None \<Rightarrow> [] | Some m \<Rightarrow> m) w")
  have "kv w' = kv w"
    using callOpenAI_frame(2)[of env "case markdown current of None \<Rightarrow> [] | Some m \<Rightarrow> m" w]
    by (simp add: c)
  then show ?thesis
    by (cases r) (simp_all add: annotate_def Some c)
qed

lemma dispatch_kv: "kv (fst (dispatch env l w)) = kv w"
proof (cases "findById (l_id l) (db w)")
  case None
  then show ?thesis by (simp add: dispatch_def)
next
  case (Some c2)
  obtain w1 r where p: "postWebhook env (primary_payload c2) w = (w1, r)"
    by (cases "postWebhook env (primary_payload c2) w")
  have "kv w1 = kv w" using postWebhook_frame(2)[of env "primary_payload c2" w] by (simp add: p)
  then show ?thesis
    by (cases r) (simp_all add: dispatch_def Some p Let_def secondary_frame)
qed

lemma processRecord_kv: "kv (fst (processRecord notify env l w)) = kv w"
proof -
  obtain w2 r where a: "annotate env l (w\<lparr> db := reconcile (tick w) l (db w) \<rparr>) = (w2, r)"
    by (cases "annotate env l (w\<lparr> db := reconcile (tick w) l (db w) \<rparr>)")
  have "kv w2 = kv w" using annotate_kv[of env l "w\<lparr> db := reconcile (tick w) l (db w) \<rparr>"]
    by (simp add: a)
  then show ?thesis
    by (cases r) (simp_all add: processRecord_def a dispatch_kv)
qed

lemma for_each_preserves:
  assumes step: "\<And>l w. P w \<Longrightarrow> P (fst (f l w))"
  shows "P w \<Longrightarrow> P (fst (for_each f ls w))"
proof (induction ls arbitrary: w)
  case Nil
  then show ?case by simp
next
  case (Cons l ls)
  obtain w' r where f: "f l w = (w', r)" by (cases "f l w")
  have "P w'" using step[OF Cons.prems, of l] by (simp add: f)
  then show ?case using Cons.IH[of w'] by (cases r) (simp_all add: f)
qed

lemma for_each_kv: "kv (fst (for_each (processRecord notify env) ls w)) = kv w"
  by (rule for_each_preserves[where P = "\<lambda>w'. kv w' = kv w"]) (simp_all add: processRecord_kv)

lemma backfill_from_props:
  "pages < 1000 \<Longrightarrow>
   kv (final (backfill_from env pages cursor w)) = kv w
   \<and> pages_done (backfill_from env pages cursor w) \<le> 1000
   \<and> pages < pages_done (backfill_from env pages cursor w)
   \<and> (failure (backfill_from env pages cursor w) = None \<longrightarrow>
        \<not> truthy (last_cursor (backfill_from env pages cursor w))
        \<or> pages_done (backfill_from env pages cursor w) = 1000)"
proof (induction env pages cursor w rule: backfill_from.induct)
  case (1 env pages cursor w)
  obtain w1 r where p: "pageStarred env cursor w = (w1, r)" by (cases "pageStarred env cursor w")
  have kv1: "kv w1 = kv w" using pageStarred_frame(2)[of env cursor w] by (simp add: p)
  show ?case
  proof (cases r)
    case (Inl e)
    then show ?thesis using "1.prems" kv1
      by (subst (1 2 3 4 5 6) backfill_from.simps) (simp add: p)
  next
    case (Inr j)
    obtain w2 q where fe: "for_each (processRecord (BACKFILL_SEND_WEBHOOK env) env) (lifelogs j) w1 = (w2, q)"
      by (cases "for_each (processRecord (BACKFILL_SEND_WEBHOOK env) env) (lifelogs j) w1")
    have kv2: "kv w2 = kv w"
      using for_each_kv[of "BACKFILL_SEND_WEBHOOK env" env "lifelogs j" w1] kv1 by (simp add: fe)
    show ?thesis
    proof (cases q)
      case (Some e)
      then show ?thesis using "1.prems" kv2
        by (subst (1 2 3 4 5 6) backfill_from.simps) (simp add: p Inr fe)
    next
      case None
      show ?thesis
      proof (cases "truthy (nextCursor j) \<and> pages + 1 < 1000")
        case True
        have eq: "backfill_from env pages cursor w = backfill_from env (pages + 1) (nextCursor j) w2"
          using True by (subst backfill_from.simps) (simp add: p Inr fe None)
        have ih: "kv (final (backfill_from env (pages + 1) (nextCursor j) w2)) = kv w2
          \<and> pages_done (backfill_from env (pages + 1) (nextCursor j) w2) \<le> 1000
          \<and> pages + 1 < pages_done (backfill_from env (pages + 1) (nextCursor j) w2)
          \<and> (failure (backfill_from env (pages + 1) (nextCursor j) w2) = None \<longrightarrow>
              \<not> truthy (last_cursor (backfill_from env (pages + 1) (nextCursor j) w2))
              \<or> pages_done (backfill_from env (pages + 1) (nextCursor j) w2) = 1000)"
          using "1.IH"[OF p[symmetric] Inr fe[symmetric] None] True by simp
        show ?thesis unfolding eq using ih kv2 by auto
      next
        case False
        then show ?thesis using "1.prems" kv2
          by (subst (1 2 3 4 5 6) backfill_from.simps) (auto simp add: p Inr fe None)
      qed
    qed
  qed
qed

subsection \<open>The full backfill and its flag\<close>

lemma reconcile_present: "\<exists>r. reconcile now l t (l_id l) = Some r"
  by (auto simp: reconcile_def findById_def upsertLifelog_def touch_def lifelogToRow_def
           split: option.splits)

lemma annotate_ok: "findById (l_id l) (db w) = Some r \<Longrightarrow> snd (annotate env l w) = None"
  by (auto simp: annotate_def split: prod.splits sum.splits)

lemma processRecord_quiet_ok: "snd (processRecord False env l w) = None"
proof -
  let ?w1 = "w\<lparr> db := reconcile (tick w) l (db w) \<rparr>"
  obtain r where "findById (l_id l) (db ?w1) = Some r"
    using reconcile_present[of "tick w" l "db w"] by (auto simp: findById_def)
  then have "snd (annotate env l ?w1) = None" by (rule annotate_ok)
  then show ?thesis by (auto simp: processRecord_def split: prod.splits option.splits)
qed

lemma for_each_ok:
  assumes "\<And>l w. snd (f l w) = None"
  shows "snd (for_each f ls w) = None"
proof (induction ls arbitrary: w)
  case Nil
  then show ?case by simp
next
  case (Cons l ls)
  obtain w' r where f: "f l w = (w', r)" by (cases "f l w")
  then have "r = None" using assms[of l w] by simp
  then show ?case using Cons.IH[of w'] by (simp add: f)
qed

lemma pageStarred_first_try:
  assumes "fetch_lifelogs env (tick w) (if truthy c then c else None) = Response s (Some pg)"
    and "ok s"
  shows "pageStarred env c w = (w\<lparr> tick := Suc (tick w) \<rparr>, Inr pg)"
proof -
  have "s \<noteq> 429" using assms(2) by (auto simp: ok_def)
  then have "fetchWithRetry (\<lambda>i. fetch_lifelogs env (tick w + i) (if truthy c then c else None)) 3
      = \<lparr> outcome = Inr (s, Some pg), sleeps = [], attempts = 1 \<rparr>"
    unfolding fetchWithRetry_def using assms
    by (subst fetchWithRetry_from.simps) simp
  then show ?thesis by (simp add: pageStarred_def)
qed

lemma pageStarred_dead:
  assumes "fetch_lifelogs env (tick w) (if truthy c then c else None) = NetworkError"
  shows "pageStarred env c w = (w\<lparr> tick := Suc (tick w) \<rparr>, Inl FetchFailed)"
proof -
  have "fetchWithRetry (\<lambda>i. fetch_lifelogs env (tick w + i) (if truthy c then c else None)) 3
      = \<lparr> outcome = Inl FetchFailed, sleeps = [], attempts = 1 \<rparr>"
    unfolding fetchWithRetry_def using assms
    by (subst fetchWithRetry_from.simps) simp
  then show ?thesis by (simp add: pageStarred_def)
qed

lemma backfill_ceiling:
  "\<forall>t c. \<exists>pg. fetch_lifelogs env t c = Response 200 (Some pg) \<and> truthy (nextCursor pg) \<Longrightarrow>
   \<not> BACKFILL_SEND_WEBHOOK env \<Longrightarrow> pages < 1000 \<Longrightarrow>
     failure (backfill_from env pages c w) = None
     \<and> pages_done (backfill_from env pages c w) = 1000
     \<and> truthy (last_cursor (backfill_from env pages c w))"
proof (induction env pages c w rule: backfill_from.induct)
  case (1 env pages cursor w)
  obtain pg where pg: "fetch_lifelogs env (tick w) (if truthy cursor then cursor else None)
        = Response 200 (Some pg)" and tr: "truthy (nextCursor pg)"
    using "1.prems"(1) by blast
  have p: "pageStarred env cursor w = (w\<lparr> tick := Suc (tick w) \<rparr>, Inr pg)"
    by (rule pageStarred_first_try[OF pg]) (simp add: ok_def)
  obtain w2 q where fe: "for_each (processRecord (BACKFILL_SEND_WEBHOOK env) env) (lifelogs pg)
       (w\<lparr> tick := Suc (tick w) \<rparr>) = (w2, q)"
    by (cases "for_each (processRecord (BACKFILL_SEND_WEBHOOK env) env) (lifelogs pg)
       (w\<lparr> tick := Suc (tick w) \<rparr>)")
  have q: "q = None"
    using for_each_ok[of "processRecord False env" "lifelogs pg" "w\<lparr> tick := Suc (tick w) \<rparr>"]
      processRecord_quiet_ok "1.prems"(2) fe by simp
  show ?case
  proof (cases "pages + 1 < 1000")
    case True
    have eq: "backfill_from env pages cursor w = backfill_from env (pages + 1) (nextCursor pg) w2"
      using True tr by (subst backfill_from.simps) (simp add: p fe q)
    show ?thesis unfolding eq
      using "1.IH"[OF p[symmetric] refl fe[symmetric] q] True tr "1.prems" by simp
  next
    case False
    then have "pages + 1 = 1000" using "1.prems"(3) by simp
    then show ?thesis using tr
      by (subst (1 2 3) backfill_from.simps) (simp add: p fe q)
  qed
qed

text \<open>
  Claim C1, as the code has it. \<open>fullBackfill\<close> sets the flag whenever its paging loop
  ends without an error: then the cursor is exhausted or the loop has made its 1000
  pages, and the next start of \<open>main\<close> runs no backfill. The flag is left as it was only
  when an error ended the run. The loop never makes more than 1000 pages.
\<close>

theorem fullBackfill_flag:
  "(failure (fullBackfill env w) = None \<longrightarrow>
      kvGet ''backfill_done'' (final (fullBackfill env w)) = Some ''1''
      \<and> \<not> backfill_needed (final (fullBackfill env w))
      \<and> (\<not> truthy (last_cursor (fullBackfill env w)) \<or> pages_done (fullBackfill env w) = 1000))
   \<and> (failure (fullBackfill env w) \<noteq> None \<longrightarrow> kv (final (fullBackfill env w)) = kv w)
   \<and> pages_done (fullBackfill env w) \<le> 1000"
  using backfill_from_props[of 0 env None w]
  by (auto simp: fullBackfill_def Let_def kvGet_def kvSet_def backfill_needed_def
           split: option.splits)

text \<open>
  On a collection that never ends the loop stops at 1000 pages with a next cursor in hand,
  and the flag is set all the same.
\<close>

theorem fullBackfill_flag_counterexample:
  "failure (fullBackfill endless_env fresh) = None
   \<and> pages_done (fullBackfill endless_env fresh) = 1000
   \<and> truthy (last_cursor (fullBackfill endless_env fresh))
   \<and> kvGet ''backfill_done'' (final (fullBackfill endless_env fresh)) = Some ''1''
   \<and> \<not> backfill_needed (final (fullBackfill endless_env fresh))"
proof -
  have src: "\<forall>t c. \<exists>pg. fetch_lifelogs endless_env t c = Response 200 (Some pg) \<and> truthy (nextCursor pg)"
    by (simp add: endless_env_def plain_env_def endless_source_def)
  have quiet: "\<not> BACKFILL_SEND_WEBHOOK endless_env"
    by (simp add: endless_env_def plain_env_def)
  have "failure (backfill_from endless_env 0 None fresh) = None
     \<and> pages_done (backfill_from endless_env 0 None fresh) = 1000
     \<and> truthy (last_cursor (backfill_from endless_env 0 None fresh))"
    by (rule backfill_ceiling[OF src quiet]) simp
  then show ?thesis
    by (simp add: fullBackfill_def Let_def kvGet_def kvSet_def backfill_needed_def)
qed

lemma three_page: "pageStarred three_env c w = (w\<lparr> tick := Suc (tick w) \<rparr>, Inr three_records)"
  by (rule pageStarred_first_try[where s = 200])
     (simp_all add: three_env_def plain_env_def three_source_def ok_def)

theorem fullBackfill_flag_witness:
  "failure (fullBackfill three_env fresh) = None
   \<and> kvGet ''backfill_done'' (final (fullBackfill three_env fresh)) = Some ''1''
   \<and> \<not> truthy (last_cursor (fullBackfill three_env fresh))
   \<and> pages_done (fullBackfill three_env fresh) = 1
   \<and> failure (fullBackfill (plain_env dead_source accepting_sink) fresh) = Some FetchFailed
   \<and> kvGet ''backfill_done'' (final (fullBackfill (plain_env dead_source accepting_sink) fresh)) = None"
proof -
  have q: "snd (for_each (processRecord False three_env) (lifelogs three_records)
        (fresh\<lparr> tick := Suc (tick fresh) \<rparr>)) = None"
    by (rule for_each_ok) (rule processRecord_quiet_ok)
  have b: "BACKFILL_SEND_WEBHOOK three_env = False" by (simp add: three_env_def plain_env_def)
  have l: "\<not> truthy (nextCursor three_records)" by (simp add: three_records_def)
  obtain w2 where fe: "for_each (processRecord False three_env) (lifelogs three_records)
        (fresh\<lparr> tick := Suc (tick fresh) \<rparr>) = (w2, None)"
    using q by (cases "for_each (processRecord False three_env) (lifelogs three_records)
        (fresh\<lparr> tick := Suc (tick fresh) \<rparr>)") auto
  have bf: "backfill_from three_env 0 None fresh
      = \<lparr> final = w2, failure = None, pages_done = 1, last_cursor = nextCursor three_records \<rparr>"
    using l by (subst backfill_from.simps) (simp add: three_page b fe)
  have A: "failure (fullBackfill three_env fresh) = None"
       "\<not> truthy (last_cursor (fullBackfill three_env fresh))"
       "pages_done (fullBackfill three_env fresh) = 1"
    using l by (simp_all add: fullBackfill_def bf)
  have d: "pageStarred (plain_env dead_source accepting_sink) None fresh
         = (fresh\<lparr> tick := Suc (tick fresh) \<rparr>, Inl FetchFailed)"
    by (rule pageStarred_dead) (simp add: plain_env_def dead_source_def)
  have B: "failure (fullBackfill (plain_env dead_source accepting_sink) fresh) = Some FetchFailed"
    unfolding fullBackfill_def by (subst backfill_from.simps) (simp add: d)
  have C: "kv fresh ''backfill_done'' = None" by (simp add: fresh_def)
  show ?thesis
    using fullBackfill_flag[of three_env fresh] fullBackfill_flag[of "plain_env dead_source accepting_sink" fresh]
      A B C
    by (simp add: kvGet_def)
qed

subsection \<open>Annotation\<close>

lemma annotated_upsert:
  "annotated t k \<Longrightarrow> annotated (upsertLifelog now (lifelogToRow l) t) k"
  by (auto simp: annotated_def upsertLifelog_def lifelogToRow_def split: option.splits)

lemma annotated_touch: "annotated t k \<Longrightarrow> annotated (touch now i t) k"
  by (auto simp: annotated_def touch_def split: option.splits)

lemma annotated_reconcile: "annotated t k \<Longrightarrow> annotated (reconcile now l t) k"
  by (simp add: reconcile_def annotated_upsert annotated_touch split: option.splits)

lemma annotated_setAnalysis: "annotated t k \<Longrightarrow> annotated (setAnalysis a i t) k"
  by (auto simp: annotated_def setAnalysis_def split: option.splits)

lemma annotated_markWebhook: "annotated t k \<Longrightarrow> annotated (markWebhook now u s i t) k"
  by (auto simp: annotated_def markWebhook_def split: option.splits)

lemma annotated_annotate:
  assumes "annotated (db w) k"
  shows "annotated (db (fst (annotate env l w))) k"
proof (cases "findById (l_id l) (db w)")
  case None
  then show ?thesis using assms by (simp add: annotate_def)
next
  case (Some current)
  let ?md = "case markdown current of None \<Rightarrow> [] | Some m \<Rightarrow> m"
  obtain w' r where c: "callOpenAI env ?md w = (w', r)"
    by (cases "callOpenAI env ?md w")
  have "db w' = db w" using callOpenAI_frame(1)[of env ?md w] by (simp add: c)
  then show ?thesis using assms
    by (cases r) (simp_all add: annotate_def Some c annotated_setAnalysis)
qed

lemma annotated_dispatch:
  assumes "annotated (db w) k"
  shows "annotated (db (fst (dispatch env l w))) k"
proof (cases "findById (l_id l) (db w)")
  case None
  then show ?thesis using assms by (simp add: dispatch_def)
next
  case (Some c2)
  obtain w1 r where p: "postWebhook env (primary_payload c2) w = (w1, r)"
    by (cases "postWebhook env (primary_payload c2) w")
  have "db w1 = db w" using postWebhook_frame(1)[of env "primary_payload c2" w] by (simp add: p)
  then show ?thesis using assms
    by (cases r) (simp_all add: dispatch_def Some p Let_def secondary_frame annotated_markWebhook)
qed

lemma annotated_processRecord:
  assumes "annotated (db w) k"
  shows "annotated (db (fst (processRecord notify env l w))) k"
proof -
  let ?w1 = "w\<lparr> db := reconcile (tick w) l (db w) \<rparr>"
  obtain w2 r where a: "annotate env l ?w1 = (w2, r)" by (cases "annotate env l ?w1")
  have "annotated (db ?w1) k" using assms by (simp add: annotated_reconcile)
  then have "annotated (db w2) k" using annotated_annotate[of ?w1 k env l] by (simp add: a)
  then show ?thesis
    by (cases r) (simp_all add: processRecord_def a annotated_dispatch)
qed

lemma callOpenAI_no_key:
  "\<not> truthy (OPENAI_API_KEY env) \<Longrightarrow> callOpenAI env md w = (w, Inr unscored)"
  by (simp add: callOpenAI_def)

lemma annotate_no_key:
  assumes "\<not> truthy (OPENAI_API_KEY env)" and "db w (l_id l) = Some r"
  shows "annotated (db (fst (annotate env l w))) (l_id l)"
    and "analysis_json r = None \<Longrightarrow>
         map_option analysis_json (db (fst (annotate env l w)) (l_id l)) = Some (Some unscored)"
proof -
  show "annotated (db (fst (annotate env l w))) (l_id l)"
  proof (cases "analysis_json r = None")
    case True
    then show ?thesis using assms
      by (simp add: annotate_def findById_def callOpenAI_no_key annotated_def setAnalysis_def)
  next
    case False
    then show ?thesis using assms
      by (auto simp: annotate_def findById_def annotated_def)
  qed
  show "analysis_json r = None \<Longrightarrow>
         map_option analysis_json (db (fst (annotate env l w)) (l_id l)) = Some (Some unscored)"
    using assms
    by (simp add: annotate_def findById_def callOpenAI_no_key setAnalysis_def)
qed

lemma reconcile_keeps_missing:
  assumes "\<forall>r. t (l_id l) = Some r \<longrightarrow> analysis_json r = None"
  shows "\<exists>r. reconcile now l t (l_id l) = Some r \<and> analysis_json r = None"
proof (cases "t (l_id l)")
  case None
  then show ?thesis
    by (simp add: reconcile_def findById_def upsertLifelog_def lifelogToRow_def)
next
  case (Some old)
  then have "analysis_json old = None" using assms by simp
  then show ?thesis using Some
    by (simp add: reconcile_def findById_def upsertLifelog_def touch_def lifelogToRow_def)
qed

lemma processRecord_no_key:
  assumes nk: "\<not> truthy (OPENAI_API_KEY env)"
  shows "annotated (db (fst (processRecord notify env l w))) (l_id l)"
proof -
  let ?w1 = "w\<lparr> db := reconcile (tick w) l (db w) \<rparr>"
  obtain r where r: "db ?w1 (l_id l) = Some r"
    using reconcile_present[of "tick w" l "db w"] by auto
  obtain w2 e where a: "annotate env l ?w1 = (w2, e)" by (cases "annotate env l ?w1")
  have "annotated (db w2) (l_id l)" using annotate_no_key(1)[OF nk r] by (simp add: a)
  then show ?thesis
    by (cases e) (simp_all add: processRecord_def a annotated_dispatch)
qed

lemma for_each_annotated:
  "annotated (db w) k \<Longrightarrow> annotated (db (fst (for_each (processRecord notify env) ls w))) k"
  by (rule for_each_preserves[where P = "\<lambda>w. annotated (db w) k"])
     (simp_all add: annotated_processRecord)

lemma for_each_no_key:
  assumes nk: "\<not> truthy (OPENAI_API_KEY env)"
  shows "snd (for_each (processRecord notify env) ls w) = None \<Longrightarrow> l \<in> set ls \<Longrightarrow>
         annotated (db (fst (for_each (processRecord notify env) ls w))) (l_id l)"
proof (induction ls arbitrary: w)
  case Nil
  then show ?case by simp
next
  case (Cons x xs)
  obtain w' e where f: "processRecord notify env x w = (w', e)"
    by (cases "processRecord notify env x w")
  have e: "e = None" using Cons.prems(1) by (cases e) (simp_all add: f)
  have rest: "for_each (processRecord notify env) (x # xs) w
        = for_each (processRecord notify env) xs w'" by (simp add: f e)
  show ?case
  proof (cases "l = x")
    case True
    have "annotated (db w') (l_id l)" using processRecord_no_key[OF nk, of notify x w] True
      by (simp add: f)
    then show ?thesis unfolding rest by (rule for_each_annotated)
  next
    case False
    then have "l \<in> set xs" using Cons.prems(2) by simp
    then show ?thesis unfolding rest using Cons.IH[of w'] Cons.prems(1) rest by simp
  qed
qed

text \<open>
  Claim C10. Without an OpenAI key \<open>callOpenAI\<close> returns the object
  \<open>{sentiment: "unscored", confidence: 0, summary: ""}\<close> and leaves the state as it was:
  no call is made, whatever the service would have answered. Processing a record then
  always leaves its row with an annotation, the unscored object when the row had none,
  and so does the processing of a whole page for each of its records.
\<close>

theorem unscored_without_key:
  "\<not> truthy (OPENAI_API_KEY env) \<longrightarrow>
     callOpenAI env md w =
       (w, Inr (JsObj [(''sentiment'', JsStr ''unscored''), (''confidence'', JsNum 0),
                       (''summary'', JsStr [])]))
     \<and> annotated (db (fst (processRecord notify env l w))) (l_id l)
     \<and> ((\<forall>r. db w (l_id l) = Some r \<longrightarrow> analysis_json r = None) \<longrightarrow>
          map_option analysis_json (db (fst (processRecord False env l w)) (l_id l))
            = Some (Some unscored))
     \<and> (snd (for_each (processRecord notify env) ls w) = None \<longrightarrow>
          (\<forall>x\<in>set ls. annotated (db (fst (for_each (processRecord notify env) ls w))) (l_id x)))"
proof (intro impI conjI ballI)
  assume nk: "\<not> truthy (OPENAI_API_KEY env)"
  show "callOpenAI env md w =
       (w, Inr (JsObj [(''sentiment'', JsStr ''unscored''), (''confidence'', JsNum 0),
                       (''summary'', JsStr [])]))"
    using callOpenAI_no_key[OF nk] by (simp add: unscored_def)
  show "annotated (db (fst (processRecord notify env l w))) (l_id l)"
    by (rule processRecord_no_key[OF nk])
  {
    assume miss: "\<forall>r. db w (l_id l) = Some r \<longrightarrow> analysis_json r = None"
    let ?w1 = "w\<lparr> db := reconcile (tick w) l (db w) \<rparr>"
    obtain r where r: "db ?w1 (l_id l) = Some r" and n: "analysis_json r = None"
      using reconcile_keeps_missing[where t = "db w" and l = l and now = "tick w", OF miss] by auto
    obtain w2 e where a: "annotate env l ?w1 = (w2, e)" by (cases "annotate env l ?w1")
    have e: "e = None" using annotate_ok[of l ?w1 r env] r by (simp add: a findById_def)
    have "map_option analysis_json (db w2 (l_id l)) = Some (Some unscored)"
      using annotate_no_key(2)[OF nk r n] by (simp add: a)
    then show "map_option analysis_json (db (fst (processRecord False env l w)) (l_id l))
            = Some (Some unscored)"
      by (simp add: processRecord_def a e)
  }
  {
    fix x
    assume "snd (for_each (processRecord notify env) ls w) = None" "x \<in> set ls"
    then show "annotated (db (fst (for_each (processRecord notify env) ls w))) (l_id x)"
      by (rule for_each_no_key[OF nk])
  }
qed

theorem unscored_without_key_witness:
  "callOpenAI three_env ''text'' fresh =
       (fresh, Inr (JsObj [(''sentiment'', JsStr ''unscored''), (''confidence'', JsNum 0),
                       (''summary'', JsStr [])]))
   \<and> annotated (db (fst (processRecord True three_env (sample_lifelog ''a'' ''v1'') fresh))) ''a''
   \<and> map_option analysis_json
        (db (fst (processRecord False three_env (sample_lifelog ''a'' ''v1'') fresh)) ''a'')
        = Some (Some unscored)
   \<and> annotated (db (fst (for_each (processRecord False three_env) (lifelogs three_records) fresh))) ''c''"
proof -
  have nk: "\<not> truthy (OPENAI_API_KEY three_env)" by (simp add: three_env_def plain_env_def)
  have ok: "snd (for_each (processRecord False three_env) (lifelogs three_records) fresh) = None"
    by (rule for_each_ok) (rule processRecord_quiet_ok)
  have mem: "sample_lifelog ''c'' ''v1'' \<in> set (lifelogs three_records)"
    by (simp add: three_records_def)
  have emp: "\<forall>r. db fresh (l_id (sample_lifelog ''a'' ''v1'')) = Some r \<longrightarrow> analysis_json r = None"
    by (simp add: fresh_def)
  have id: "l_id (sample_lifelog ''a'' ''v1'') = ''a''" "l_id (sample_lifelog ''c'' ''v1'') = ''c''"
    by (simp_all add: sample_lifelog_def)
  note t1 = unscored_without_key[of three_env "''text''" fresh True "sample_lifelog ''a'' ''v1''"
      "lifelogs three_records", rule_format, OF nk]
  note t2 = unscored_without_key[of three_env "''text''" fresh False "sample_lifelog ''a'' ''v1''"
      "lifelogs three_records", rule_format, OF nk]
  show ?thesis
    using t1 t2 ok mem emp id by auto
qed

subsection \<open>The dispatch of one record\<close>

lemma postWebhook_answered:
  "fetch_webhook env (tick w) p = Response s b \<Longrightarrow>
   postWebhook env p w = (w\<lparr> tick := Suc (tick w), posts := posts w @ [(p, Some s)] \<rparr>, Inr s)"
  by (simp add: postWebhook_def)

lemma postWebhook_rejected:
  "fetch_webhook env (tick w) p = NetworkError \<Longrightarrow>
   postWebhook env p w = (w\<lparr> tick := Suc (tick w), posts := posts w @ [(p, None)] \<rparr>, Inl FetchFailed)"
  by (simp add: postWebhook_def)

text \<open>
  Claim C2, as the code has it. For a row that is eligible (its webhook_last_updatedAt
  differs from its updatedAt): when the primary sink answers the POST, whatever the
  status and whatever happens on the second webhook, the dispatch ends normally and has
  written webhook_last_updatedAt = updatedAt, webhook_status = that status and a fresh
  webhook_sent_at into the row, whose other columns are as before. When the fetch of the
  primary POST is rejected, the dispatch throws that rejection: the table is left as it
  was and no outcome is recorded.
\<close>

theorem dispatch_records_outcome:
  "findById (l_id l) (db w) = Some c2 \<and> row_id c2 = l_id l
   \<and> webhook_last_updatedAt c2 \<noteq> updatedAt c2 \<longrightarrow>
     (\<forall>s b. fetch_webhook env (tick w) (primary_payload c2) = Response s b \<longrightarrow>
        snd (dispatch env l w) = None
        \<and> (\<exists>t. tick w < t \<and>
              db (fst (dispatch env l w)) (l_id l) =
                Some (c2\<lparr> webhook_last_updatedAt := updatedAt c2, webhook_status := Some s,
                          webhook_sent_at := Some t \<rparr>))
        \<and> posts (fst (dispatch env l w)) = posts w @ [(primary_payload c2, Some s)])
     \<and> (fetch_webhook env (tick w) (primary_payload c2) = NetworkError \<longrightarrow>
          snd (dispatch env l w) = Some FetchFailed
          \<and> db (fst (dispatch env l w)) = db w
          \<and> posts (fst (dispatch env l w)) = posts w @ [(primary_payload c2, None)])"
proof (intro impI conjI allI)
  assume h: "findById (l_id l) (db w) = Some c2 \<and> row_id c2 = l_id l
   \<and> webhook_last_updatedAt c2 \<noteq> updatedAt c2"
  {
    fix s b
    assume a: "fetch_webhook env (tick w) (primary_payload c2) = Response s b"
    let ?w1 = "w\<lparr> tick := Suc (tick w), posts := posts w @ [(primary_payload c2, Some s)] \<rparr>"
    let ?w2 = "secondary env c2 ?w1"
    have d: "dispatch env l w =
        (?w2\<lparr> db := markWebhook (tick ?w2) (updatedAt c2) s (row_id c2) (db ?w2) \<rparr>, None)"
      using h by (simp add: dispatch_def postWebhook_answered[OF a] Let_def)
    have f: "db ?w2 = db w" "posts ?w2 = posts w @ [(primary_payload c2, Some s)]"
      by (simp_all add: secondary_frame)
    have f3: "tick ?w1 \<le> tick ?w2"
      by (rule secondary_frame(4))
    show "snd (dispatch env l w) = None" by (simp add: d)
    show "posts (fst (dispatch env l w)) = posts w @ [(primary_payload c2, Some s)]"
      by (simp add: d f)
    have "tick w < tick ?w2" using f3 by simp
    moreover have "db (fst (dispatch env l w)) (l_id l) =
                Some (c2\<lparr> webhook_last_updatedAt := updatedAt c2, webhook_status := Some s,
                          webhook_sent_at := Some (tick ?w2) \<rparr>)"
      using h unfolding d by (simp add: f(1) markWebhook_def findById_def)
    ultimately show "\<exists>t. tick w < t \<and>
              db (fst (dispatch env l w)) (l_id l) =
                Some (c2\<lparr> webhook_last_updatedAt := updatedAt c2, webhook_status := Some s,
                          webhook_sent_at := Some t \<rparr>)"
      by blast
  }
  {
    assume a: "fetch_webhook env (tick w) (primary_payload c2) = NetworkError"
    have d: "dispatch env l w =
        (w\<lparr> tick := Suc (tick w), posts := posts w @ [(primary_payload c2, None)] \<rparr>, Some FetchFailed)"
      using h by (simp add: dispatch_def postWebhook_rejected[OF a])
    show "snd (dispatch env l w) = Some FetchFailed" by (simp add: d)
    show "db (fst (dispatch env l w)) = db w" by (simp add: d)
    show "posts (fst (dispatch env l w)) = posts w @ [(primary_payload c2, None)]" by (simp add: d)
  }
qed

subsection \<open>The effect of processing one record\<close>

lemma strict_eq_nullish: "strict_eq a b \<Longrightarrow> a = nullish b"
  by (cases a; cases b) simp_all

lemma wf_table_upsert:
  "wf_table t \<Longrightarrow> wf_table (upsertLifelog now r t)"
  by (auto simp: wf_table_def upsertLifelog_def split: option.splits)

lemma wf_table_touch: "wf_table t \<Longrightarrow> wf_table (touch now i t)"
  by (auto simp: wf_table_def touch_def split: option.splits)

lemma wf_table_setAnalysis: "wf_table t \<Longrightarrow> wf_table (setAnalysis a i t)"
  by (auto simp: wf_table_def setAnalysis_def split: option.splits)

lemma wf_table_markWebhook: "wf_table t \<Longrightarrow> wf_table (markWebhook now u s i t)"
  by (auto simp: wf_table_def markWebhook_def split: option.splits)

lemma wf_table_reconcile: "wf_table t \<Longrightarrow> wf_table (reconcile now l t)"
  by (simp add: reconcile_def wf_table_upsert wf_table_touch split: option.splits)

lemma reconcile_other: "k \<noteq> l_id l \<Longrightarrow> reconcile now l t k = t k"
  by (auto simp: reconcile_def upsertLifelog_def touch_def lifelogToRow_def findById_def
           split: option.splits)

lemma reconcile_row:
  "\<exists>r. reconcile now l t (l_id l) = Some r \<and> updatedAt r = ver l
       \<and> webhook_last_updatedAt r = notified t (l_id l)"
proof (cases "t (l_id l)")
  case None
  then show ?thesis
    by (simp add: reconcile_def findById_def upsertLifelog_def lifelogToRow_def ver_def
        notified_def)
next
  case (Some old)
  show ?thesis
  proof (cases "\<not> strict_eq (updatedAt old) (l_updatedAt l)
             \<or> isStarred old \<noteq> (if l_isStarred l then 1 else 0)")
    case True
    then show ?thesis using Some
      by (simp add: reconcile_def findById_def upsertLifelog_def lifelogToRow_def ver_def
          notified_def)
  next
    case False
    then have "updatedAt old = nullish (l_updatedAt l)" by (simp add: strict_eq_nullish)
    then show ?thesis using Some False
      by (simp add: reconcile_def findById_def touch_def ver_def notified_def)
  qed
qed

lemma annotate_effect:
  assumes "annotate env l w = (w', e)"
  shows "posts w' = posts w \<and> tick w \<le> tick w' \<and> (wf_table (db w) \<longrightarrow> wf_table (db w'))
      \<and> (\<forall>k. map_option updatedAt (db w' k) = map_option updatedAt (db w k))
      \<and> (\<forall>k. map_option webhook_last_updatedAt (db w' k)
                = map_option webhook_last_updatedAt (db w k))
      \<and> (db w (l_id l) \<noteq> None \<longrightarrow> e = None)
      \<and> (\<forall>k. k \<noteq> l_id l \<longrightarrow> db w' k = db w k)"
proof -
  have e: "db w (l_id l) \<noteq> None \<longrightarrow> e = None"
    using assms annotate_ok[of l w _ env] by (auto simp: findById_def)
  show ?thesis
  proof (cases "findById (l_id l) (db w)")
    case None
    then show ?thesis using assms e by (auto simp: annotate_def)
  next
    case (Some current)
    let ?md = "case markdown current of None \<Rightarrow> [] | Some m \<Rightarrow> m"
    obtain w1 r where c: "callOpenAI env ?md w = (w1, r)" by (cases "callOpenAI env ?md w")
    have f: "db w1 = db w" "posts w1 = posts w" "tick w \<le> tick w1"
      using callOpenAI_frame[where env = env and md = ?md and w = w] by (simp_all add: c)
    have sa: "\<And>a k. map_option updatedAt (setAnalysis a (l_id l) (db w) k)
                  = map_option updatedAt (db w k)"
      "\<And>a k. map_option webhook_last_updatedAt (setAnalysis a (l_id l) (db w) k)
            = map_option webhook_last_updatedAt (db w k)"
      "\<And>a k. k \<noteq> l_id l \<Longrightarrow> setAnalysis a (l_id l) (db w) k = db w k"
      by (auto simp: setAnalysis_def split: option.splits)
    show ?thesis
    proof (cases "analysis_json current = None")
      case True
      show ?thesis
      proof (cases r)
        case (Inl err)
        then have "w' = w1" using assms Some True c by (simp add: annotate_def)
        then show ?thesis using f e by simp
      next
        case (Inr a)
        then have "w' = w1\<lparr> db := setAnalysis a (l_id l) (db w1) \<rparr>"
          using assms Some True c by (simp add: annotate_def)
        then show ?thesis using f sa e by (simp add: wf_table_setAnalysis)
      qed
    next
      case False
      then have "w' = w" using assms Some by (auto simp: annotate_def)
      then show ?thesis using e by simp
    qed
  qed
qed

lemma markWebhook_other: "k \<noteq> i \<Longrightarrow> markWebhook now u s i t k = t k"
  by (simp add: markWebhook_def split: option.splits)

lemma markWebhook_row:
  "t i = Some r \<Longrightarrow> markWebhook now u s i t i =
     Some (r\<lparr> webhook_last_updatedAt := u, webhook_status := Some s, webhook_sent_at := Some now \<rparr>)"
  by (simp add: markWebhook_def)

lemma dispatch_effect:
  assumes d: "dispatch env l w = (w', e)" and wf: "wf_table (db w)"
    and row: "db w (l_id l) = Some c2"
  shows "wf_table (db w') \<and> tick w \<le> tick w'
    \<and> (\<forall>k. k \<noteq> l_id l \<longrightarrow> db w' k = db w k)
    \<and> (\<forall>k. map_option updatedAt (db w' k) = map_option updatedAt (db w k))
    \<and> (webhook_last_updatedAt c2 = updatedAt c2 \<longrightarrow> w' = w \<and> e = None)
    \<and> (webhook_last_updatedAt c2 \<noteq> updatedAt c2 \<longrightarrow>
         (\<exists>p t. tick w \<le> t \<and> lifelogId p = l_id l \<and> p_updatedAt p = updatedAt c2
            \<and> posts w' = posts w @ [(p, status_of (fetch_webhook env t p))]
            \<and> (case status_of (fetch_webhook env t p) of
                  None \<Rightarrow> e = Some FetchFailed \<and> db w' = db w
                | Some s \<Rightarrow> e = None \<and> notified (db w') (l_id l) = updatedAt c2)))"
proof (cases "webhook_last_updatedAt c2 = updatedAt c2")
  case True
  then have "w' = w" "e = None" using d row by (simp_all add: dispatch_def findById_def)
  then show ?thesis using True wf by simp
next
  case False
  have rid: "row_id c2 = l_id l" using wf row by (simp add: wf_table_def)
  let ?p = "primary_payload c2"
  have pk: "lifelogId ?p = l_id l" "p_updatedAt ?p = updatedAt c2"
    by (simp_all add: primary_payload_def rid)
  show ?thesis
  proof (cases "fetch_webhook env (tick w) ?p")
      case NetworkError
      have "dispatch env l w =
        (w\<lparr> tick := Suc (tick w), posts := posts w @ [(?p, None)] \<rparr>, Some FetchFailed)"
        using False row by (simp add: dispatch_def findById_def postWebhook_rejected[OF NetworkError])
      then have w': "w' = w\<lparr> tick := Suc (tick w), posts := posts w @ [(?p, None)] \<rparr>"
        and e: "e = Some FetchFailed" using d by simp_all
      have ex: "\<exists>p t. tick w \<le> t \<and>
            lifelogId p = l_id l \<and>
            p_updatedAt p = updatedAt c2 \<and>
            posts w' = posts w @ [(p, status_of (fetch_webhook env t p))] \<and>
            (case status_of (fetch_webhook env t p) of
             None \<Rightarrow> e = Some FetchFailed \<and> db w' = db w
             | Some s \<Rightarrow> e = None \<and> notified (db w') (l_id l) = updatedAt c2)"
        by (rule exI[where x = ?p], rule exI[where x = "tick w"])
           (simp add: pk w' e NetworkError)
      show ?thesis using ex False wf by (simp add: w' e)
  next
      case (Response s b)
      let ?w1 = "w\<lparr> tick := Suc (tick w), posts := posts w @ [(?p, Some s)] \<rparr>"
      let ?w2 = "secondary env c2 ?w1"
      have "dispatch env l w =
        (?w2\<lparr> db := markWebhook (tick ?w2) (updatedAt c2) s (row_id c2) (db ?w2) \<rparr>, None)"
        using False row
        by (simp add: dispatch_def findById_def postWebhook_answered[OF Response] Let_def)
      then have w': "w' = ?w2\<lparr> db := markWebhook (tick ?w2) (updatedAt c2) s (l_id l) (db ?w2) \<rparr>"
        and e: "e = None" using d rid by simp_all
      have f: "db ?w2 = db w" "posts ?w2 = posts w @ [(?p, Some s)]"
        by (simp_all add: secondary_frame)
      have f3: "tick ?w1 \<le> tick ?w2" by (rule secondary_frame(4))
      have db': "db w' = markWebhook (tick ?w2) (updatedAt c2) s (l_id l) (db w)"
        by (simp add: w' f)
      have ex: "\<exists>p t. tick w \<le> t \<and>
            lifelogId p = l_id l \<and>
            p_updatedAt p = updatedAt c2 \<and>
            posts w' = posts w @ [(p, status_of (fetch_webhook env t p))] \<and>
            (case status_of (fetch_webhook env t p) of
             None \<Rightarrow> e = Some FetchFailed \<and> db w' = db w
             | Some s \<Rightarrow> e = None \<and> notified (db w') (l_id l) = updatedAt c2)"
        by (rule exI[where x = ?p], rule exI[where x = "tick w"])
           (simp add: pk e Response db' notified_def markWebhook_row[where t = "db w", OF row] w' f)
      have up: "\<And>k. map_option updatedAt (db w' k) = map_option updatedAt (db w k)"
      proof -
        fix k show "map_option updatedAt (db w' k) = map_option updatedAt (db w k)"
          by (cases "k = l_id l") (simp_all add: db' markWebhook_row[where t = "db w", OF row] markWebhook_other row)
      qed
      have "tick w \<le> tick w'" using f3 by (simp add: w')
      then show ?thesis using ex False wf up
        by (simp add: e db' wf_table_markWebhook markWebhook_other)
  qed
qed


lemma processRecord_effect:
  assumes pr: "processRecord notify env l w = (w', e)" and wf: "wf_table (db w)"
  shows "wf_table (db w') \<and> tick w \<le> tick w'
    \<and> (\<forall>k. k \<noteq> l_id l \<longrightarrow> db w' k = db w k)
    \<and> (\<exists>r'. db w' (l_id l) = Some r' \<and> updatedAt r' = ver l)
    \<and> (\<not> notify \<or> notified (db w) (l_id l) = ver l \<longrightarrow>
          posts w' = posts w \<and> notified (db w') (l_id l) = notified (db w) (l_id l) \<and> e = None)
    \<and> (notify \<and> notified (db w) (l_id l) \<noteq> ver l \<longrightarrow>
         (\<exists>p t. tick w \<le> t \<and> lifelogId p = l_id l \<and> p_updatedAt p = ver l
            \<and> posts w' = posts w @ [(p, status_of (fetch_webhook env t p))]
            \<and> (case status_of (fetch_webhook env t p) of
                  None \<Rightarrow> e = Some FetchFailed
                          \<and> notified (db w') (l_id l) = notified (db w) (l_id l)
                | Some s \<Rightarrow> e = None \<and> notified (db w') (l_id l) = ver l)))"
proof -
  let ?w1 = "w\<lparr> db := reconcile (tick w) l (db w) \<rparr>"
  obtain r1 where r1: "db ?w1 (l_id l) = Some r1" "updatedAt r1 = ver l"
      "webhook_last_updatedAt r1 = notified (db w) (l_id l)"
    using reconcile_row[of "tick w" l "db w"] by auto
  have wf1: "wf_table (db ?w1)" using wf by (simp add: wf_table_reconcile)
  have o1: "\<And>k. k \<noteq> l_id l \<Longrightarrow> db ?w1 k = db w k" by (simp add: reconcile_other)
  obtain w2 e2 where an: "annotate env l ?w1 = (w2, e2)" by (cases "annotate env l ?w1")
  note ae = annotate_effect[OF an]
  have e2: "e2 = None" using ae r1(1) by simp
  have p2: "posts w2 = posts w" using ae by simp
  have t2: "tick w \<le> tick w2" using ae by simp
  have wf2: "wf_table (db w2)" using ae wf1 by blast
  have o2: "\<And>k. k \<noteq> l_id l \<Longrightarrow> db w2 k = db w k" using ae o1 by simp
  have u2: "map_option updatedAt (db w2 (l_id l)) = Some (ver l)"
    using ae r1 by simp
  have n2: "map_option webhook_last_updatedAt (db w2 (l_id l)) = Some (notified (db w) (l_id l))"
    using ae r1 by simp
  obtain r2 where r2: "db w2 (l_id l) = Some r2" "updatedAt r2 = ver l"
      "webhook_last_updatedAt r2 = notified (db w) (l_id l)"
    using u2 n2 by (cases "db w2 (l_id l)") auto
  have nn2: "notified (db w2) (l_id l) = notified (db w) (l_id l)"
    using r2 by (simp add: notified_def)
  show ?thesis
  proof (cases notify)
    case False
    then have "w' = w2" "e = None" using pr an e2 by (simp_all add: processRecord_def)
    then show ?thesis using False wf2 t2 o2 r2 p2 nn2 by simp
  next
    case True
    then have d: "dispatch env l w2 = (w', e)" using pr an e2 by (simp add: processRecord_def)
    note de = dispatch_effect[OF d wf2 r2(1)]
    have wf': "wf_table (db w')" and t': "tick w \<le> tick w'" using de t2 by auto
    have o': "\<forall>k. k \<noteq> l_id l \<longrightarrow> db w' k = db w k" using de o2 by simp
    have "map_option updatedAt (db w' (l_id l)) = Some (ver l)" using de u2 by simp
    then have row': "\<exists>r'. db w' (l_id l) = Some r' \<and> updatedAt r' = ver l"
      by (cases "db w' (l_id l)") auto
    show ?thesis
    proof (cases "notified (db w) (l_id l) = ver l")
      case same: True
      then have "w' = w2 \<and> e = None" using de r2 by simp
      then show ?thesis using True same wf' t' o' row' p2 nn2 by simp
    next
      case diff: False
      then have "webhook_last_updatedAt r2 \<noteq> updatedAt r2" using r2 by simp
      then obtain p t where pt: "tick w2 \<le> t" "lifelogId p = l_id l" "p_updatedAt p = updatedAt r2"
          "posts w' = posts w2 @ [(p, status_of (fetch_webhook env t p))]"
          "case status_of (fetch_webhook env t p) of
                  None \<Rightarrow> e = Some FetchFailed \<and> db w' = db w2
                | Some s \<Rightarrow> e = None \<and> notified (db w') (l_id l) = updatedAt r2"
        using de by blast
      have "\<exists>p t. tick w \<le> t \<and> lifelogId p = l_id l \<and> p_updatedAt p = ver l
            \<and> posts w' = posts w @ [(p, status_of (fetch_webhook env t p))]
            \<and> (case status_of (fetch_webhook env t p) of
                  None \<Rightarrow> e = Some FetchFailed
                          \<and> notified (db w') (l_id l) = notified (db w) (l_id l)
                | Some s \<Rightarrow> e = None \<and> notified (db w') (l_id l) = ver l)"
        apply (rule exI[where x = p], rule exI[where x = t])
        using pt t2 r2 p2 nn2 by (auto split: option.splits)
      then show ?thesis using True diff wf' t' o' row' by simp
    qed
  qed
qed

subsection \<open>At most one answered notification per version\<close>

lemma notified_other:
  "\<forall>k. k \<noteq> i \<longrightarrow> t' k = t k \<Longrightarrow> k \<noteq> i \<Longrightarrow> notified t' k = notified t k"
  by (simp add: notified_def)

lemma answered_append: "answered (xs @ ys) = answered xs @ answered ys"
  by (simp add: answered_def)

lemma answered_single:
  "answered [(p, None)] = []" "answered [(p, Some s)] = [(p, Some s)]"
  by (simp_all add: answered_def is_answered_def)

lemma processRecord_summary:
  assumes pr: "processRecord notify env l w = (w', e)" and wf: "wf_table (db w)"
    and n0: "notified (db w) (l_id l) \<le> ver l"
  shows "\<exists>new. posts w' = posts w @ new
     \<and> notified (db w) (l_id l) \<le> notified (db w') (l_id l)
     \<and> notified (db w') (l_id l) \<le> ver l
     \<and> (new = [] \<or> (\<exists>p. new = [(p, None)])
         \<or> (\<exists>p s. new = [(p, Some s)] \<and> post_key (p, Some s) = (l_id l, ver l)
               \<and> notified (db w') (l_id l) = ver l \<and> notified (db w) (l_id l) \<noteq> ver l))
     \<and> (\<forall>a \<in> set new. \<exists>t. snd a = status_of (fetch_webhook env t (fst a)))"
proof -
  note pe = processRecord_effect[OF pr wf]
  show ?thesis
  proof (cases "notify \<and> notified (db w) (l_id l) \<noteq> ver l")
    case False
    then have "posts w' = posts w \<and> notified (db w') (l_id l) = notified (db w) (l_id l)"
      using pe by blast
    then show ?thesis using n0 by (intro exI[where x = "[]"]) simp
  next
    case True
    then obtain p t where pt: "lifelogId p = l_id l" "p_updatedAt p = ver l"
        "posts w' = posts w @ [(p, status_of (fetch_webhook env t p))]"
        "case status_of (fetch_webhook env t p) of
                  None \<Rightarrow> e = Some FetchFailed
                          \<and> notified (db w') (l_id l) = notified (db w) (l_id l)
                | Some s \<Rightarrow> e = None \<and> notified (db w') (l_id l) = ver l"
      using pe by blast
    show ?thesis
    proof (cases "status_of (fetch_webhook env t p)")
      case None
      then have "notified (db w') (l_id l) = notified (db w) (l_id l)" using pt(4) by simp
      moreover have "\<exists>t'. None = status_of (fetch_webhook env t' p)"
        using None by (intro exI[where x = t]) simp
      ultimately show ?thesis using n0 pt(3) None
        by (intro exI[where x = "[(p, None)]"]) simp
    next
      case (Some s)
      then have "notified (db w') (l_id l) = ver l" using pt(4) by simp
      moreover have "\<exists>t'. Some s = status_of (fetch_webhook env t' p)"
        using Some by (intro exI[where x = t]) simp
      ultimately show ?thesis using n0 pt(1,2,3) Some True
        by (intro exI[where x = "[(p, Some s)]"]) (simp add: post_key_def)
    qed
  qed
qed

lemma once_inv_record:
  assumes inv: "once_inv env T w" and mono: "mono_source env"
    and obs: "observed env T (l_id l) (ver l)"
    and pr: "processRecord notify env l w = (w', e)"
  shows "once_inv env T w'"
proof -
  let ?i = "l_id l"
  have wf: "wf_table (db w)" and Tt: "T \<le> tick w"
    and d: "distinct (map post_key (answered (posts w)))"
    and j2: "\<forall>a \<in> set (answered (posts w)). snd (post_key a) \<le> notified (db w) (fst (post_key a))"
    and j3: "\<forall>k r. db w k = Some r \<longrightarrow> webhook_last_updatedAt r \<le> updatedAt r"
    and j5: "\<forall>k r. db w k = Some r \<longrightarrow> (\<exists>t \<le> T. observed env t k (updatedAt r))"
    and j6: "\<forall>a \<in> set (posts w). \<exists>t. snd a = status_of (fetch_webhook env t (fst a))"
    using inv by (simp_all add: once_inv_def)
  note pe = processRecord_effect[OF pr wf]
  have wf': "wf_table (db w')" and tt': "tick w \<le> tick w'"
    and oth: "\<forall>k. k \<noteq> ?i \<longrightarrow> db w' k = db w k"
    using pe by blast+
  obtain r' where r': "db w' ?i = Some r'" "updatedAt r' = ver l" using pe by blast
  have n0: "notified (db w) ?i \<le> ver l"
  proof (cases "db w ?i")
    case None
    then show ?thesis by (simp add: notified_def)
  next
    case (Some r0)
    obtain t where t: "t \<le> T" "observed env t ?i (updatedAt r0)" using j5 Some by blast
    have "updatedAt r0 \<le> ver l" using mono t obs unfolding mono_source_def by blast
    moreover have "webhook_last_updatedAt r0 \<le> updatedAt r0" using j3 Some by blast
    ultimately show ?thesis using Some by (simp add: notified_def)
  qed
  obtain new where new: "posts w' = posts w @ new"
     "notified (db w) ?i \<le> notified (db w') ?i"
     "notified (db w') ?i \<le> ver l"
     "new = [] \<or> (\<exists>p. new = [(p, None)])
         \<or> (\<exists>p s. new = [(p, Some s)] \<and> post_key (p, Some s) = (?i, ver l)
               \<and> notified (db w') ?i = ver l \<and> notified (db w) ?i \<noteq> ver l)"
     "\<forall>a \<in> set new. \<exists>t. snd a = status_of (fetch_webhook env t (fst a))"
    using processRecord_summary[OF pr wf n0] by blast
  have nmono: "\<And>k. notified (db w) k \<le> notified (db w') k"
  proof -
    fix k show "notified (db w) k \<le> notified (db w') k"
      using new(2) notified_other[OF oth, of k] by (cases "k = ?i") simp_all
  qed
  have old2: "\<forall>a \<in> set (answered (posts w)). snd (post_key a) \<le> notified (db w') (fst (post_key a))"
    using j2 nmono by (blast intro: order_trans)
  have J3: "\<forall>k r. db w' k = Some r \<longrightarrow> webhook_last_updatedAt r \<le> updatedAt r"
  proof (intro allI impI)
    fix k r assume kr: "db w' k = Some r"
    show "webhook_last_updatedAt r \<le> updatedAt r"
    proof (cases "k = ?i")
      case True
      then have "r = r'" using kr r' by simp
      moreover have "notified (db w') ?i = webhook_last_updatedAt r'" using r' by (simp add: notified_def)
      ultimately show ?thesis using new(3) r'(2) by simp
    next
      case False
      then show ?thesis using j3 oth kr by simp
    qed
  qed
  have J5: "\<forall>k r. db w' k = Some r \<longrightarrow> (\<exists>t \<le> T. observed env t k (updatedAt r))"
  proof (intro allI impI)
    fix k r assume kr: "db w' k = Some r"
    show "\<exists>t \<le> T. observed env t k (updatedAt r)"
    proof (cases "k = ?i")
      case True
      then have "r = r'" using kr r' by simp
      then show ?thesis using obs r'(2) True by auto
    next
      case False
      then show ?thesis using j5 oth kr by simp
    qed
  qed
  have J6: "\<forall>a \<in> set (posts w'). \<exists>t. snd a = status_of (fetch_webhook env t (fst a))"
    using j6 new(1,5) by auto
  have J12: "distinct (map post_key (answered (posts w')))
      \<and> (\<forall>a \<in> set (answered (posts w')). snd (post_key a) \<le> notified (db w') (fst (post_key a)))"
  proof -
    consider (none) "new = []" | (rej) p where "new = [(p, None)]"
      | (ans) p s where "new = [(p, Some s)]" "post_key (p, Some s) = (?i, ver l)"
               "notified (db w') ?i = ver l" "notified (db w) ?i \<noteq> ver l"
      using new(4) by blast
    then show ?thesis
    proof cases
      case none
      then show ?thesis using d old2 new(1) by simp
    next
      case rej
      then show ?thesis using d old2 new(1) by (simp add: answered_append answered_single)
    next
      case ans
      have fresh_key: "(?i, ver l) \<notin> set (map post_key (answered (posts w)))"
      proof
        assume "(?i, ver l) \<in> set (map post_key (answered (posts w)))"
        then obtain a where a: "a \<in> set (answered (posts w))" "post_key a = (?i, ver l)" by auto
        then have "ver l \<le> notified (db w) ?i" using j2 by fastforce
        then have "notified (db w) ?i = ver l" using n0 by simp
        then show False using ans(4) by simp
      qed
      have eq: "answered (posts w') = answered (posts w) @ [(p, Some s)]"
        using new(1) ans(1) by (simp add: answered_append answered_single)
      show ?thesis unfolding eq using d old2 fresh_key ans(2,3) by simp
    qed
  qed
  show ?thesis
    unfolding once_inv_def using wf' Tt tt' J12 J3 J5 J6 by simp
qed


lemma for_each_preserves_in:
  "(\<forall>l \<in> set ls. \<forall>w. P w \<longrightarrow> P (fst (f l w))) \<Longrightarrow> P w \<Longrightarrow> P (fst (for_each f ls w))"
proof (induction ls arbitrary: w)
  case Nil
  then show ?case by simp
next
  case (Cons l ls)
  obtain w' r where f: "f l w = (w', r)" by (cases "f l w")
  have "P w'" using Cons.prems f by fastforce
  then have "P (fst (for_each f ls w'))" using Cons.IH Cons.prems(1) by simp
  then show ?case by (cases r) (simp_all add: f \<open>P w'\<close>)
qed

lemma retry_success_origin:
  "outcome (fetchWithRetry_from fetch maxn i slept) = Inr (s, b) \<Longrightarrow>
   \<exists>j. i \<le> j \<and> j < attempts (fetchWithRetry_from fetch maxn i slept)
       \<and> fetch j = Response s b \<and> ok s"
proof (induction fetch maxn i slept rule: fetchWithRetry_from.induct)
  case (1 fetch maxn i slept)
  show ?case
  proof (cases "i < maxn")
    case False
    then show ?thesis using "1.prems" by (subst (asm) fetchWithRetry_from.simps) simp
  next
    case lt: True
    show ?thesis
    proof (cases "fetch i")
      case NetworkError
      then show ?thesis using lt "1.prems" by (subst (asm) fetchWithRetry_from.simps) simp
    next
      case (Response status body)
      show ?thesis
      proof (cases "status = 429")
        case True
        have eq: "fetchWithRetry_from fetch maxn i slept =
                  fetchWithRetry_from fetch maxn (i + 1) (slept @ [1000 * (i + 1) * 2])"
          by (subst fetchWithRetry_from.simps) (simp add: lt Response True)
        obtain j where "i + 1 \<le> j"
          "j < attempts (fetchWithRetry_from fetch maxn (i + 1) (slept @ [1000 * (i + 1) * 2]))"
          "fetch j = Response s b" "ok s"
          using "1.IH"(1)[OF lt Response True] "1.prems" unfolding eq by blast
        then show ?thesis unfolding eq by (intro exI[where x = j]) simp
      next
        case n429: False
        show ?thesis
        proof (cases "ok status")
          case True
          have eq: "fetchWithRetry_from fetch maxn i slept =
                \<lparr> outcome = Inr (status, body), sleeps = slept, attempts = i + 1 \<rparr>"
            by (subst fetchWithRetry_from.simps) (simp add: lt Response n429 True)
          show ?thesis using "1.prems" True Response unfolding eq
            by (intro exI[where x = i]) simp
        next
          case nok: False
          show ?thesis
          proof (cases "status \<ge> 500 \<and> int i < int maxn - 1")
            case True
            have eq: "fetchWithRetry_from fetch maxn i slept =
                  fetchWithRetry_from fetch maxn (i + 1) (slept @ [500 * (i + 1)])"
              using True by (subst fetchWithRetry_from.simps) (simp add: lt Response n429 nok)
            obtain j where "i + 1 \<le> j"
              "j < attempts (fetchWithRetry_from fetch maxn (i + 1) (slept @ [500 * (i + 1)]))"
              "fetch j = Response s b" "ok s"
              using "1.IH"(2)[OF lt Response n429 nok True] "1.prems" unfolding eq by blast
            then show ?thesis unfolding eq by (intro exI[where x = j]) simp
          next
            case False
            then show ?thesis using lt Response n429 nok "1.prems"
              by (subst (asm) fetchWithRetry_from.simps) (simp split: if_splits)
          qed
        qed
      qed
    qed
  qed
qed

lemma pageStarred_page:
  assumes "pageStarred env c w = (w1, Inr pg)"
  shows "db w1 = db w \<and> posts w1 = posts w \<and> kv w1 = kv w
     \<and> (\<exists>t s. tick w \<le> t \<and> t < tick w1 \<and> ok s
          \<and> fetch_lifelogs env t (if truthy c then c else None) = Response s (Some pg))"
proof -
  let ?f = "\<lambda>i. fetch_lifelogs env (tick w + i) (if truthy c then c else None)"
  let ?r = "fetchWithRetry ?f 3"
  have w1: "w1 = w\<lparr> tick := tick w + attempts ?r \<rparr>"
    using assms by (auto simp: pageStarred_def Let_def split: sum.splits option.splits prod.splits)
  obtain s where out: "outcome ?r = Inr (s, Some pg)"
    using assms by (auto simp: pageStarred_def Let_def split: sum.splits option.splits prod.splits)
  obtain j where j: "j < attempts ?r" "?f j = Response s (Some pg)" "ok s"
    using retry_success_origin[of ?f 3 0 "[]" s "Some pg"] out
    unfolding fetchWithRetry_def by blast
  have "\<exists>t s. tick w \<le> t \<and> t < tick w1 \<and> ok s
          \<and> fetch_lifelogs env t (if truthy c then c else None) = Response s (Some pg)"
    using j by (intro exI[where x = "tick w + j"] exI[where x = s]) (simp add: w1)
  then show ?thesis by (simp add: w1)
qed

lemma once_inv_tick:
  assumes "once_inv env T w" "db w1 = db w" "posts w1 = posts w" "T \<le> T'" "T' \<le> tick w1"
  shows "once_inv env T' w1"
proof -
  have "\<forall>k r. db w k = Some r \<longrightarrow> (\<exists>t \<le> T'. observed env t k (updatedAt r))"
  proof (intro allI impI)
    fix k r assume "db w k = Some r"
    then obtain t where "t \<le> T" "observed env t k (updatedAt r)"
      using assms(1) unfolding once_inv_def by blast
    then show "\<exists>t \<le> T'. observed env t k (updatedAt r)"
      using assms(4) by (intro exI[where x = t]) simp
  qed
  then show ?thesis using assms unfolding once_inv_def by simp
qed

lemma once_inv_page:
  assumes inv: "once_inv env T w" and mono: "mono_source env"
    and pg: "pageStarred env c w = (w1, Inr pg)"
  shows "\<exists>T'. once_inv env T' w1
           \<and> once_inv env T' (fst (for_each (processRecord notify env) (lifelogs pg) w1))"
proof -
  obtain t s where t: "tick w \<le> t" "t < tick w1" "ok s"
      "fetch_lifelogs env t (if truthy c then c else None) = Response s (Some pg)"
    and fr: "db w1 = db w" "posts w1 = posts w"
    using pageStarred_page[OF pg] by blast
  have "T \<le> t" using inv t(1) by (simp add: once_inv_def)
  then have i1: "once_inv env t w1" using once_inv_tick[OF inv fr] t(2) by simp
  have obs: "\<forall>l \<in> set (lifelogs pg). observed env t (l_id l) (ver l)"
    using t(3,4) unfolding observed_def by blast
  have "once_inv env t (fst (for_each (processRecord notify env) (lifelogs pg) w1))"
  proof (rule for_each_preserves_in[where P = "once_inv env t", OF _ i1], intro ballI allI impI)
    fix l w' assume "l \<in> set (lifelogs pg)" "once_inv env t w'"
    then show "once_inv env t (fst (processRecord notify env l w'))"
      using once_inv_record[OF _ mono, of t w' l notify] obs
      by (cases "processRecord notify env l w'") auto
  qed
  then show ?thesis using i1 by blast
qed

subsection \<open>Invariants of the two traversals\<close>

lemma scan_from_preserves:
  "(\<forall>w c w1 e. P w \<and> pageStarred env c w = (w1, Inl e) \<longrightarrow> P w1) \<Longrightarrow>
   (\<forall>w c w1 pg. P w \<and> pageStarred env c w = (w1, Inr pg) \<longrightarrow>
       P w1 \<and> P (fst (for_each (processRecord True env) (lifelogs pg) w1))) \<Longrightarrow>
   P w \<Longrightarrow> P (final (scan_from env pages c w))"
proof (induction env pages c w rule: scan_from.induct)
  case (1 env pages cursor w)
  show ?case
  proof (cases "int pages < MAX_PAGES_PER_RUN env")
    case False
    then show ?thesis using "1.prems"(3) by (subst scan_from.simps) simp
  next
    case lt: True
    obtain w1 r where p: "pageStarred env cursor w = (w1, r)" by (cases "pageStarred env cursor w")
    show ?thesis
    proof (cases r)
      case (Inl e)
      then have "P w1" using "1.prems"(1,3) p by blast
      then show ?thesis using lt by (subst scan_from.simps) (simp add: p Inl)
    next
      case (Inr j)
      obtain w2 q where fe: "for_each (processRecord True env) (lifelogs j) w1 = (w2, q)"
        by (cases "for_each (processRecord True env) (lifelogs j) w1")
      have P1: "P w1" and P2: "P w2" using "1.prems"(2,3) p Inr fe by fastforce+
      show ?thesis
      proof (cases "lifelogs j = []")
        case True
        then show ?thesis using lt P1 by (subst scan_from.simps) (simp add: p Inr)
      next
        case ne: False
        show ?thesis
        proof (cases q)
          case (Some e)
          then show ?thesis using lt ne P2 by (subst scan_from.simps) (simp add: p Inr fe)
        next
          case None
          show ?thesis
          proof (cases "(pages + 1 \<ge> 3 \<and> early_stop w2 (lifelogs j)) \<or> \<not> truthy (nextCursor j)")
            case True
            then show ?thesis using lt ne P2
              by (subst scan_from.simps) (auto simp add: p Inr fe None)
          next
            case False
            then have eq: "scan_from env pages cursor w = scan_from env (pages + 1) (nextCursor j) w2"
              using lt ne by (subst scan_from.simps) (auto simp add: p Inr fe None)
            have c1: "\<not> (3 \<le> pages + 1 \<and> early_stop w2 (lifelogs j))" and c2: "\<not> \<not> truthy (nextCursor j)"
              using False by auto
            show ?thesis unfolding eq
              using "1.IH"[OF lt p[symmetric] Inr ne fe[symmetric] None c1 c2] "1.prems"(1,2) P2
              by blast
          qed
        qed
      qed
    qed
  qed
qed

lemma backfill_from_preserves:
  "(\<forall>w c w1 e. P w \<and> pageStarred env c w = (w1, Inl e) \<longrightarrow> P w1) \<Longrightarrow>
   (\<forall>w c w1 pg. P w \<and> pageStarred env c w = (w1, Inr pg) \<longrightarrow>
       P w1 \<and> P (fst (for_each (processRecord (BACKFILL_SEND_WEBHOOK env) env) (lifelogs pg) w1))) \<Longrightarrow>
   P w \<Longrightarrow> P (final (backfill_from env pages c w))"
proof (induction env pages c w rule: backfill_from.induct)
  case (1 env pages cursor w)
  obtain w1 r where p: "pageStarred env cursor w = (w1, r)" by (cases "pageStarred env cursor w")
  show ?case
  proof (cases r)
    case (Inl e)
    then have "P w1" using "1.prems"(1,3) p by blast
    then show ?thesis by (subst backfill_from.simps) (simp add: p Inl)
  next
    case (Inr j)
    obtain w2 q where fe: "for_each (processRecord (BACKFILL_SEND_WEBHOOK env) env) (lifelogs j) w1 = (w2, q)"
      by (cases "for_each (processRecord (BACKFILL_SEND_WEBHOOK env) env) (lifelogs j) w1")
    have P2: "P w2" using "1.prems"(2,3) p Inr fe by fastforce
    show ?thesis
    proof (cases q)
      case (Some e)
      then show ?thesis using P2 by (subst backfill_from.simps) (simp add: p Inr fe)
    next
      case None
      show ?thesis
      proof (cases "truthy (nextCursor j) \<and> pages + 1 < 1000")
        case True
        have eq: "backfill_from env pages cursor w = backfill_from env (pages + 1) (nextCursor j) w2"
          using True by (subst backfill_from.simps) (simp add: p Inr fe None)
        show ?thesis unfolding eq
          using "1.IH"[OF p[symmetric] Inr fe[symmetric] None True] "1.prems"(1,2) P2 by blast
      next
        case False
        then show ?thesis using P2 by (subst backfill_from.simps) (auto simp add: p Inr fe None)
      qed
    qed
  qed
qed

lemma once_inv_fetch_failed:
  assumes "once_inv env T w" "pageStarred env c w = (w1, r)"
  shows "once_inv env T w1"
proof -
  have "db w1 = db w" "posts w1 = posts w" "tick w \<le> tick w1"
    using pageStarred_frame[where env = env and c = c and w = w] assms(2) by simp_all
  moreover have "T \<le> tick w" using assms(1) by (simp add: once_inv_def)
  ultimately show ?thesis using once_inv_tick[OF assms(1), of w1 T] by simp
qed

lemma once_inv_scan:
  assumes mono: "mono_source env" and inv: "\<exists>T. once_inv env T w"
  shows "\<exists>T. once_inv env T (final (scan_from env pages c w))"
proof (rule scan_from_preserves[where P = "\<lambda>w. \<exists>T. once_inv env T w"])
  show "\<forall>w c w1 e. (\<exists>T. once_inv env T w) \<and> pageStarred env c w = (w1, Inl e)
          \<longrightarrow> (\<exists>T. once_inv env T w1)"
    using once_inv_fetch_failed by blast
  show "\<forall>w c w1 pg. (\<exists>T. once_inv env T w) \<and> pageStarred env c w = (w1, Inr pg) \<longrightarrow>
       (\<exists>T. once_inv env T w1)
       \<and> (\<exists>T. once_inv env T (fst (for_each (processRecord True env) (lifelogs pg) w1)))"
    using once_inv_page[OF _ mono] by blast
  show "\<exists>T. once_inv env T w" by (rule inv)
qed

lemma once_inv_backfill:
  assumes mono: "mono_source env" and inv: "\<exists>T. once_inv env T w"
  shows "\<exists>T. once_inv env T (final (backfill_from env pages c w))"
proof (rule backfill_from_preserves[where P = "\<lambda>w. \<exists>T. once_inv env T w"])
  show "\<forall>w c w1 e. (\<exists>T. once_inv env T w) \<and> pageStarred env c w = (w1, Inl e)
          \<longrightarrow> (\<exists>T. once_inv env T w1)"
    using once_inv_fetch_failed by blast
  show "\<forall>w c w1 pg. (\<exists>T. once_inv env T w) \<and> pageStarred env c w = (w1, Inr pg) \<longrightarrow>
       (\<exists>T. once_inv env T w1)
       \<and> (\<exists>T. once_inv env T
             (fst (for_each (processRecord (BACKFILL_SEND_WEBHOOK env) env) (lifelogs pg) w1)))"
    using once_inv_page[OF _ mono] by blast
  show "\<exists>T. once_inv env T w" by (rule inv)
qed

lemma once_inv_kvSet: "once_inv env T w \<Longrightarrow> once_inv env T (kvSet k v w)"
  by (simp add: once_inv_def kvSet_def)

lemma once_inv_run:
  assumes mono: "mono_source env" and inv: "\<exists>T. once_inv env T w"
  shows "\<exists>T. once_inv env T (exec_run env r w)"
proof (cases r)
  case FullBackfill
  obtain T where "once_inv env T (final (backfill_from env 0 None w))"
    using once_inv_backfill[OF mono inv] by blast
  then have "once_inv env T (kvSet ''backfill_done'' ''1'' (final (backfill_from env 0 None w)))"
    by (rule once_inv_kvSet)
  then show ?thesis using FullBackfill \<open>once_inv env T (final (backfill_from env 0 None w))\<close>
    by (auto simp: fullBackfill_def Let_def split: option.splits)
next
  case IncrementalScan
  then show ?thesis using once_inv_scan[OF mono inv] by (simp add: incrementalScan_def)
qed

lemma once_inv_runs:
  assumes mono: "mono_source env"
  shows "\<exists>T. once_inv env T w \<Longrightarrow> \<exists>T. once_inv env T (exec_runs env rs w)"
proof (induction rs arbitrary: w)
  case Nil
  then show ?case by simp
next
  case (Cons r rs)
  have "\<exists>T. once_inv env T (exec_run env r w)" by (rule once_inv_run[OF mono Cons.prems])
  then show ?case using Cons.IH by simp
qed

lemma once_inv_fresh: "once_inv env 0 fresh"
  by (simp add: once_inv_def fresh_def wf_table_def answered_def)

lemma all_answered:
  assumes "once_inv env T w" and "\<forall>t p. fetch_webhook env t p \<noteq> NetworkError"
  shows "answered (posts w) = posts w"
proof -
  have "\<forall>a \<in> set (posts w). is_answered a"
  proof
    fix a assume "a \<in> set (posts w)"
    then obtain t where t: "snd a = status_of (fetch_webhook env t (fst a))"
      using assms(1) unfolding once_inv_def by blast
    have "fetch_webhook env t (fst a) \<noteq> NetworkError" using assms(2) by blast
    then show "is_answered a" using t
      by (cases "fetch_webhook env t (fst a)") (simp_all add: is_answered_def)
  qed
  then show ?thesis by (simp add: answered_def)
qed

text \<open>
  Claim C3, as the code has it. Over any sequence of full backfills and incremental scans
  on a fresh installation, against a source whose versions per id never decrease, no two
  POSTs that the primary sink answered are about the same id and version; when the sink
  is never unreachable this holds of all POSTs made. A row whose webhook_last_updatedAt
  equals its updatedAt is not dispatched (nothing happens), and a row where they differ
  (null included) is: a POST with its payload is made.
\<close>

theorem at_most_one_answered_notification:
  "mono_source env \<longrightarrow>
     distinct (map post_key (answered (posts (exec_runs env rs fresh))))
     \<and> ((\<forall>t p. fetch_webhook env t p \<noteq> NetworkError) \<longrightarrow>
          distinct (map post_key (posts (exec_runs env rs fresh))))
     \<and> (\<forall>w l c2. findById (l_id l) (db w) = Some c2
            \<and> webhook_last_updatedAt c2 = updatedAt c2 \<longrightarrow> dispatch env l w = (w, None))
     \<and> (\<forall>w l c2. findById (l_id l) (db w) = Some c2
            \<and> webhook_last_updatedAt c2 \<noteq> updatedAt c2 \<longrightarrow>
            (\<exists>out. posts (fst (dispatch env l w)) = posts w @ [(primary_payload c2, out)]))"
proof (intro impI conjI allI)
  assume mono: "mono_source env"
  obtain T where inv: "once_inv env T (exec_runs env rs fresh)"
    using once_inv_runs[OF mono, of fresh rs] once_inv_fresh by blast
  then show "distinct (map post_key (answered (posts (exec_runs env rs fresh))))"
    by (simp add: once_inv_def)
  {
    assume "\<forall>t p. fetch_webhook env t p \<noteq> NetworkError"
    then have "answered (posts (exec_runs env rs fresh)) = posts (exec_runs env rs fresh)"
      using all_answered[OF inv] by simp
    then show "distinct (map post_key (posts (exec_runs env rs fresh)))"
      using inv by (simp add: once_inv_def)
  }
  {
    fix w :: world and l :: lifelog and c2 :: stored
    assume "findById (l_id l) (db w) = Some c2 \<and> webhook_last_updatedAt c2 = updatedAt c2"
    then show "dispatch env l w = (w, None)" by (simp add: dispatch_def)
  }
  {
    fix w :: world and l :: lifelog and c2 :: stored
    assume h: "findById (l_id l) (db w) = Some c2 \<and> webhook_last_updatedAt c2 \<noteq> updatedAt c2"
    show "\<exists>out. posts (fst (dispatch env l w)) = posts w @ [(primary_payload c2, out)]"
    proof (cases "fetch_webhook env (tick w) (primary_payload c2)")
      case NetworkError
      then show ?thesis using h
        by (intro exI[where x = None]) (simp add: dispatch_def postWebhook_rejected)
    next
      case (Response s b)
      then show ?thesis using h
        by (intro exI[where x = "Some s"])
           (simp add: dispatch_def postWebhook_answered Let_def secondary_frame)
    qed
  }
qed

subsection \<open>Concrete runs\<close>

lemmas eval_defs =
  incrementalScan_def fullBackfill_def pageStarred_def fetchWithRetry_def
  processRecord_def reconcile_def findById_def upsertLifelog_def touch_def lifelogToRow_def
  annotate_def callOpenAI_def setAnalysis_def dispatch_def postWebhook_def secondary_def
  markWebhook_def primary_payload_def early_stop_def upToDateCount_def upToDate_def
  kvSet_def kvGet_def ok_def Let_def
  plain_env_def sample_lifelog_def fresh_def attempt_of_def post_key_def
  fetched_row_def sample_payload_def numeral_2_eq_2[symmetric]

lemma flaky_first:
  "incrementalScan flaky_env fresh =
     \<lparr> final = \<lparr> db = [''a'' \<mapsto> fetched_row ''a'' ''v1'' 1], kv = Map.empty, tick = 2,
                 posts = [(sample_payload ''a'' ''v1'', None)], posts2 = [] \<rparr>,
       failure = Some FetchFailed, pages_done = 1, last_cursor = None \<rparr>"
  by (simp add: eval_defs flaky_env_def one_source_def flaky_sink_def
      scan_from.simps fetchWithRetry_from.simps)

lemma flaky_second:
  "incrementalScan flaky_env (final (incrementalScan flaky_env fresh)) =
     \<lparr> final = \<lparr> db = [''a'' \<mapsto> (fetched_row ''a'' ''v1'' 1)
                           \<lparr> webhook_last_updatedAt := Some ''v1'', webhook_status := Some 200,
                             webhook_sent_at := Some 4, last_seen_at := 3 \<rparr>],
                 kv = Map.empty, tick = 4,
                 posts = [(sample_payload ''a'' ''v1'', None), (sample_payload ''a'' ''v1'', Some 200)],
                 posts2 = [] \<rparr>,
       failure = None, pages_done = 1, last_cursor = None \<rparr>"
  unfolding flaky_first
  by (simp add: eval_defs flaky_env_def one_source_def flaky_sink_def
      scan_from.simps fetchWithRetry_from.simps)

lemma flaky_posts:
  "posts (exec_runs flaky_env [IncrementalScan, IncrementalScan] fresh) =
     [(sample_payload ''a'' ''v1'', None), (sample_payload ''a'' ''v1'', Some 200)]"
  by (simp add: flaky_second)

lemma flaky_mono: "mono_source flaky_env"
  unfolding mono_source_def observed_def
  by (auto simp: flaky_env_def plain_env_def one_source_def ver_def sample_lifelog_def)

lemma three_mono: "mono_source three_env"
  unfolding mono_source_def observed_def
  by (auto simp: three_env_def plain_env_def three_source_def three_records_def ver_def
      sample_lifelog_def)

text \<open>
  One record, a sink that is unreachable during the first scan: the first scan POSTs the
  record, the fetch is rejected and nothing is recorded, and the second scan POSTs the
  same id and version again.
\<close>

theorem at_most_one_notification_counterexample:
  "mono_source flaky_env
   \<and> map attempt_of (posts (exec_runs flaky_env [IncrementalScan, IncrementalScan] fresh)) =
       [(''a'', Some ''v1'', None), (''a'', Some ''v1'', Some 200)]
   \<and> \<not> distinct (map post_key (posts (exec_runs flaky_env [IncrementalScan, IncrementalScan] fresh)))"
  using flaky_mono unfolding flaky_posts
  by (simp add: attempt_of_def post_key_def sample_payload_def)

lemma v1_le_v2: "Some ''v1'' \<le> Some ''v2''"
  by (simp add: less_eq_char_def)

lemma changing_mono: "mono_source changing_env"
  unfolding mono_source_def observed_def
  using v1_le_v2
  by (auto simp: changing_env_def plain_env_def changing_source_def ver_def sample_lifelog_def
           split: if_splits)

lemma changing_first:
  "incrementalScan changing_env fresh =
     \<lparr> final = \<lparr> db = [''a'' \<mapsto> (fetched_row ''a'' ''v1'' 1)
                           \<lparr> webhook_last_updatedAt := Some ''v1'', webhook_status := Some 200,
                             webhook_sent_at := Some 2 \<rparr>],
                 kv = Map.empty, tick = 2,
                 posts = [(sample_payload ''a'' ''v1'', Some 200)], posts2 = [] \<rparr>,
       failure = None, pages_done = 1, last_cursor = None \<rparr>"
  by (simp add: eval_defs changing_env_def changing_source_def accepting_sink_def
      scan_from.simps fetchWithRetry_from.simps)

lemma changing_posts:
  "posts (exec_runs changing_env [IncrementalScan, IncrementalScan] fresh) =
     [(sample_payload ''a'' ''v1'', Some 200), (sample_payload ''a'' ''v2'', Some 200)]"
proof -
  have "posts (final (incrementalScan changing_env (final (incrementalScan changing_env fresh)))) =
     [(sample_payload ''a'' ''v1'', Some 200), (sample_payload ''a'' ''v2'', Some 200)]"
    unfolding changing_first
    by (simp add: eval_defs changing_env_def changing_source_def accepting_sink_def
      scan_from.simps fetchWithRetry_from.simps)
  then show ?thesis by simp
qed

theorem at_most_one_answered_notification_witness:
  "mono_source changing_env
   \<and> map post_key (posts (exec_runs changing_env [IncrementalScan, IncrementalScan] fresh))
       = [(''a'', Some ''v1''), (''a'', Some ''v2'')]
   \<and> distinct (map post_key
        (posts (exec_runs changing_env [IncrementalScan, IncrementalScan] fresh)))
   \<and> mono_source flaky_env
   \<and> distinct (map post_key (answered (posts (exec_runs flaky_env [IncrementalScan, IncrementalScan] fresh))))
   \<and> map post_key (answered (posts (exec_runs flaky_env [IncrementalScan, IncrementalScan] fresh)))
       = [(''a'', Some ''v1'')]
   \<and> mono_source three_env
   \<and> distinct (map post_key
        (posts (exec_runs three_env [FullBackfill, IncrementalScan, IncrementalScan] fresh)))
   \<and> dispatch three_env (sample_lifelog ''a'' ''v1'')
        (fresh\<lparr> db := [''a'' \<mapsto> sample_stored ''a'' ''v1''] \<rparr>)
       = (fresh\<lparr> db := [''a'' \<mapsto> sample_stored ''a'' ''v1''] \<rparr>, None)
   \<and> (\<exists>out. posts (fst (dispatch three_env (sample_lifelog ''a'' ''v2'')
                  (fresh\<lparr> db := [''a'' \<mapsto> fetched_row ''a'' ''v2'' 0] \<rparr>)))
         = posts (fresh\<lparr> db := [''a'' \<mapsto> fetched_row ''a'' ''v2'' 0] \<rparr>)
           @ [(primary_payload (fetched_row ''a'' ''v2'' 0), out)])"
proof -
  note f = at_most_one_answered_notification[of flaky_env "[IncrementalScan, IncrementalScan]",
      rule_format, OF flaky_mono]
  note t = at_most_one_answered_notification[of three_env
      "[FullBackfill, IncrementalScan, IncrementalScan]", rule_format, OF three_mono]
  note c = at_most_one_answered_notification[of changing_env "[IncrementalScan, IncrementalScan]",
      rule_format, OF changing_mono]
  have never: "\<forall>t p. fetch_webhook three_env t p \<noteq> NetworkError"
    by (simp add: three_env_def plain_env_def accepting_sink_def)
  have never': "\<forall>t p. fetch_webhook changing_env t p \<noteq> NetworkError"
    by (simp add: changing_env_def plain_env_def accepting_sink_def)
  have F: "map post_key (posts (exec_runs changing_env [IncrementalScan, IncrementalScan] fresh))
       = [(''a'', Some ''v1''), (''a'', Some ''v2'')]"
    unfolding changing_posts by (simp add: post_key_def sample_payload_def)
  have G: "distinct (map post_key
        (posts (exec_runs changing_env [IncrementalScan, IncrementalScan] fresh)))"
    using c never' by blast
  have A: "distinct (map post_key (answered (posts (exec_runs flaky_env [IncrementalScan, IncrementalScan] fresh))))"
    using f by blast
  have B: "map post_key (answered (posts (exec_runs flaky_env [IncrementalScan, IncrementalScan] fresh)))
       = [(''a'', Some ''v1'')]"
    unfolding flaky_posts
    by (simp add: answered_def is_answered_def post_key_def sample_payload_def)
  have C: "distinct (map post_key
        (posts (exec_runs three_env [FullBackfill, IncrementalScan, IncrementalScan] fresh)))"
    using t never by blast
  have D: "dispatch three_env (sample_lifelog ''a'' ''v1'')
        (fresh\<lparr> db := [''a'' \<mapsto> sample_stored ''a'' ''v1''] \<rparr>)
       = (fresh\<lparr> db := [''a'' \<mapsto> sample_stored ''a'' ''v1''] \<rparr>, None)"
    using t[THEN conjunct2, THEN conjunct2, THEN conjunct1, rule_format,
        of "sample_lifelog ''a'' ''v1''" "fresh\<lparr> db := [''a'' \<mapsto> sample_stored ''a'' ''v1''] \<rparr>"
           "sample_stored ''a'' ''v1''"]
    by (simp add: findById_def sample_lifelog_def sample_stored_def)
  have E: "\<exists>out. posts (fst (dispatch three_env (sample_lifelog ''a'' ''v2'')
                  (fresh\<lparr> db := [''a'' \<mapsto> fetched_row ''a'' ''v2'' 0] \<rparr>)))
         = posts (fresh\<lparr> db := [''a'' \<mapsto> fetched_row ''a'' ''v2'' 0] \<rparr>)
           @ [(primary_payload (fetched_row ''a'' ''v2'' 0), out)]"
    using t[THEN conjunct2, THEN conjunct2, THEN conjunct2, rule_format,
        of "sample_lifelog ''a'' ''v2''" "fresh\<lparr> db := [''a'' \<mapsto> fetched_row ''a'' ''v2'' 0] \<rparr>"
           "fetched_row ''a'' ''v2'' 0"]
    by (simp add: findById_def sample_lifelog_def fetched_row_def)
  show ?thesis using changing_mono flaky_mono three_mono A B C D E F G by blast
qed

lemma offline_scan:
  "incrementalScan offline_env fresh =
     \<lparr> final = \<lparr> db = [''a'' \<mapsto> fetched_row ''a'' ''v1'' 1], kv = Map.empty, tick = 2,
                 posts = [(sample_payload ''a'' ''v1'', None)], posts2 = [] \<rparr>,
       failure = Some FetchFailed, pages_done = 1, last_cursor = None \<rparr>"
  by (simp add: eval_defs offline_env_def three_source_def three_records_def unreachable_sink_def
      scan_from.simps fetchWithRetry_from.simps)

text \<open>
  Three records, a sink that cannot be reached: the scan ends with the rejection at the
  first record; the POST was attempted, and the row carries no notified version, status
  or time.
\<close>

theorem dispatch_records_outcome_counterexample:
  "failure (incrementalScan offline_env fresh) = Some FetchFailed
   \<and> map attempt_of (posts (final (incrementalScan offline_env fresh))) = [(''a'', Some ''v1'', None)]
   \<and> map_option updatedAt (db (final (incrementalScan offline_env fresh)) ''a'') = Some (Some ''v1'')
   \<and> map_option webhook_last_updatedAt (db (final (incrementalScan offline_env fresh)) ''a'')
       = Some None
   \<and> map_option webhook_status (db (final (incrementalScan offline_env fresh)) ''a'') = Some None
   \<and> map_option webhook_sent_at (db (final (incrementalScan offline_env fresh)) ''a'') = Some None"
  by (simp add: offline_scan attempt_of_def sample_payload_def fetched_row_def)

theorem dispatch_records_outcome_witness:
  "snd (dispatch three_env (sample_lifelog ''a'' ''v1'')
          (fresh\<lparr> db := [''a'' \<mapsto> fetched_row ''a'' ''v1'' 0] \<rparr>)) = None
   \<and> (\<exists>t. 0 < t \<and>
         db (fst (dispatch three_env (sample_lifelog ''a'' ''v1'')
                (fresh\<lparr> db := [''a'' \<mapsto> fetched_row ''a'' ''v1'' 0] \<rparr>))) ''a'' =
         Some ((fetched_row ''a'' ''v1'' 0)
                \<lparr> webhook_last_updatedAt := Some ''v1'', webhook_status := Some 200,
                  webhook_sent_at := Some t \<rparr>))
   \<and> posts (fst (dispatch three_env (sample_lifelog ''a'' ''v1'')
          (fresh\<lparr> db := [''a'' \<mapsto> fetched_row ''a'' ''v1'' 0] \<rparr>)))
       = [(sample_payload ''a'' ''v1'', Some 200)]
   \<and> snd (dispatch offline_env (sample_lifelog ''a'' ''v1'')
          (fresh\<lparr> db := [''a'' \<mapsto> fetched_row ''a'' ''v1'' 0] \<rparr>)) = Some FetchFailed
   \<and> db (fst (dispatch offline_env (sample_lifelog ''a'' ''v1'')
          (fresh\<lparr> db := [''a'' \<mapsto> fetched_row ''a'' ''v1'' 0] \<rparr>)))
       = [''a'' \<mapsto> fetched_row ''a'' ''v1'' 0]
   \<and> posts (fst (dispatch offline_env (sample_lifelog ''a'' ''v1'')
          (fresh\<lparr> db := [''a'' \<mapsto> fetched_row ''a'' ''v1'' 0] \<rparr>)))
       = [(sample_payload ''a'' ''v1'', None)]"
proof -
  let ?w = "fresh\<lparr> db := [''a'' \<mapsto> fetched_row ''a'' ''v1'' 0] \<rparr>"
  let ?l = "sample_lifelog ''a'' ''v1''"
  let ?c = "fetched_row ''a'' ''v1'' 0"
  have h: "findById (l_id ?l) (db ?w) = Some ?c \<and> row_id ?c = l_id ?l
         \<and> webhook_last_updatedAt ?c \<noteq> updatedAt ?c"
    by (simp add: findById_def sample_lifelog_def fetched_row_def)
  have pp: "primary_payload ?c = sample_payload ''a'' ''v1''"
    by (simp add: primary_payload_def fetched_row_def sample_payload_def)
  have a: "fetch_webhook three_env (tick ?w) (primary_payload ?c) = Response 200 ()"
    by (simp add: three_env_def plain_env_def accepting_sink_def)
  have b: "fetch_webhook offline_env (tick ?w) (primary_payload ?c) = NetworkError"
    by (simp add: offline_env_def plain_env_def unreachable_sink_def)
  note t1 = dispatch_records_outcome[of ?l ?w ?c three_env, rule_format, OF h, THEN conjunct1,
      rule_format, OF a]
  note t2 = dispatch_records_outcome[of ?l ?w ?c offline_env, rule_format, OF h, THEN conjunct2,
      rule_format, OF b]
  have lid: "l_id ?l = ''a''" by (simp add: sample_lifelog_def)
  have w: "tick ?w = 0" "posts ?w = []" "db ?w = [''a'' \<mapsto> fetched_row ''a'' ''v1'' 0]"
    by (simp_all add: fresh_def)
  have u: "updatedAt ?c = Some ''v1''" by (simp add: fetched_row_def)
  show ?thesis using t1 t2 unfolding pp lid w u append_Nil by blast
qed

subsection \<open>The bounds of an incremental scan\<close>

lemma scan_pages_bound:
  "int (pages_done (scan_from env pages c w)) \<le> max (int pages) (MAX_PAGES_PER_RUN env)"
proof (induction env pages c w rule: scan_from.induct)
  case (1 env pages cursor w)
  show ?case
  proof (cases "int pages < MAX_PAGES_PER_RUN env")
    case False
    then show ?thesis by (subst scan_from.simps) simp
  next
    case lt: True
    obtain w1 r where p: "pageStarred env cursor w = (w1, r)" by (cases "pageStarred env cursor w")
    show ?thesis
    proof (cases r)
      case (Inl e)
      then show ?thesis using lt by (subst scan_from.simps) (simp add: p)
    next
      case (Inr j)
      obtain w2 q where fe: "for_each (processRecord True env) (lifelogs j) w1 = (w2, q)"
        by (cases "for_each (processRecord True env) (lifelogs j) w1")
      show ?thesis
      proof (cases "lifelogs j = []")
        case True
        then show ?thesis using lt by (subst scan_from.simps) (simp add: p Inr)
      next
        case ne: False
        show ?thesis
        proof (cases q)
          case (Some e)
          then show ?thesis using lt ne by (subst scan_from.simps) (simp add: p Inr fe)
        next
          case None
          show ?thesis
          proof (cases "(pages + 1 \<ge> 3 \<and> early_stop w2 (lifelogs j)) \<or> \<not> truthy (nextCursor j)")
            case True
            then show ?thesis using lt ne
              by (subst scan_from.simps) (auto simp add: p Inr fe None)
          next
            case False
            then have eq: "scan_from env pages cursor w = scan_from env (pages + 1) (nextCursor j) w2"
              using lt ne by (subst scan_from.simps) (auto simp add: p Inr fe None)
            have c1: "\<not> (3 \<le> pages + 1 \<and> early_stop w2 (lifelogs j))" and c2: "\<not> \<not> truthy (nextCursor j)"
              using False by auto
            show ?thesis unfolding eq
              using "1.IH"[OF lt p[symmetric] Inr ne fe[symmetric] None c1 c2] lt by simp
          qed
        qed
      qed
    qed
  qed
qed

text \<open>
  Claim C7. An incremental scan makes at most \<open>MAX_PAGES_PER_RUN\<close> pages (none when
  that is not positive). At any turn of its loop: when the page just processed is the
  third or a later one and at least 80 percent of its records are up to date (exactly:
  4 times the page length is at most 5 times their number), the scan ends there, whatever
  cursor is left; before the third page that share is not looked at, and the scan goes
  on while a cursor is left. A fetched record is up to date when its row exists with the
  updatedAt of the fetched record, with webhook_last_updatedAt equal to that updatedAt,
  and with a non-null analysis_json.
\<close>

theorem incrementalScan_bounded:
  "int (pages_done (incrementalScan env w)) \<le> max 0 (MAX_PAGES_PER_RUN env)
   \<and> (\<forall>pages cursor w0 w1 j w2.
         int pages < MAX_PAGES_PER_RUN env
         \<and> pageStarred env cursor w0 = (w1, Inr j) \<and> lifelogs j \<noteq> []
         \<and> for_each (processRecord True env) (lifelogs j) w1 = (w2, None)
         \<and> 3 \<le> pages + 1
         \<and> 4 * length (lifelogs j) \<le> 5 * length (filter (upToDate w2) (lifelogs j))
         \<longrightarrow> scan_from env pages cursor w0 =
               \<lparr> final = w2, failure = None, pages_done = pages + 1,
                 last_cursor = nextCursor j \<rparr>)
   \<and> (\<forall>pages cursor w0 w1 j w2.
         int pages < MAX_PAGES_PER_RUN env
         \<and> pageStarred env cursor w0 = (w1, Inr j) \<and> lifelogs j \<noteq> []
         \<and> for_each (processRecord True env) (lifelogs j) w1 = (w2, None)
         \<and> pages + 1 < 3 \<and> truthy (nextCursor j)
         \<longrightarrow> scan_from env pages cursor w0 = scan_from env (pages + 1) (nextCursor j) w2)
   \<and> (\<forall>w0 l. upToDate w0 l \<longleftrightarrow>
         (\<exists>r. findById (l_id l) (db w0) = Some r
              \<and> strict_eq (updatedAt r) (l_updatedAt l)
              \<and> webhook_last_updatedAt r = updatedAt r
              \<and> analysis_json r \<noteq> None))"
proof (intro conjI allI impI)
  show "int (pages_done (incrementalScan env w)) \<le> max 0 (MAX_PAGES_PER_RUN env)"
    using scan_pages_bound[of env 0 None w] by (simp add: incrementalScan_def)
next
  fix pages cursor w0 w1 j w2
  assume "int pages < MAX_PAGES_PER_RUN env
         \<and> pageStarred env cursor w0 = (w1, Inr j) \<and> lifelogs j \<noteq> []
         \<and> for_each (processRecord True env) (lifelogs j) w1 = (w2, None)
         \<and> 3 \<le> pages + 1
         \<and> 4 * length (lifelogs j) \<le> 5 * length (filter (upToDate w2) (lifelogs j))"
  then show "scan_from env pages cursor w0 =
               \<lparr> final = w2, failure = None, pages_done = pages + 1,
                 last_cursor = nextCursor j \<rparr>"
    by (subst scan_from.simps) (simp add: early_stop_def upToDateCount_def)
next
  fix pages cursor w0 w1 j w2
  assume "int pages < MAX_PAGES_PER_RUN env
         \<and> pageStarred env cursor w0 = (w1, Inr j) \<and> lifelogs j \<noteq> []
         \<and> for_each (processRecord True env) (lifelogs j) w1 = (w2, None)
         \<and> pages + 1 < 3 \<and> truthy (nextCursor j)"
  then show "scan_from env pages cursor w0 = scan_from env (pages + 1) (nextCursor j) w2"
    by (subst scan_from.simps) simp
next
  fix w0 :: world and l :: lifelog
  show "upToDate w0 l \<longleftrightarrow>
         (\<exists>r. findById (l_id l) (db w0) = Some r
              \<and> strict_eq (updatedAt r) (l_updatedAt l)
              \<and> webhook_last_updatedAt r = updatedAt r
              \<and> analysis_json r \<noteq> None)"
    by (auto simp: upToDate_def split: option.splits)
qed

lemma four_backfill:
  "fullBackfill four_env fresh =
     \<lparr> final = \<lparr> db = [''a'' \<mapsto> fetched_row ''a'' ''v1'' 1, ''b'' \<mapsto> fetched_row ''b'' ''v1'' 2,
                        ''c'' \<mapsto> fetched_row ''c'' ''v1'' 3, ''d'' \<mapsto> fetched_row ''d'' ''v1'' 4],
                 kv = [''backfill_done'' \<mapsto> ''1''], tick = 4, posts = [], posts2 = [] \<rparr>,
       failure = None, pages_done = 4, last_cursor = None \<rparr>"
  by (simp add: eval_defs four_env_def four_source_def accepting_sink_def
      backfill_from.simps fetchWithRetry_from.simps)


lemma four_scan:
  "incrementalScan four_env (final (fullBackfill four_env fresh)) =
     \<lparr> final = \<lparr> db = [''a'' \<mapsto> (fetched_row ''a'' ''v1'' 1)
                           \<lparr> webhook_last_updatedAt := Some ''v1'', webhook_status := Some 200,
                             webhook_sent_at := Some 6, last_seen_at := 5 \<rparr>,
                        ''b'' \<mapsto> (fetched_row ''b'' ''v1'' 2)
                           \<lparr> webhook_last_updatedAt := Some ''v1'', webhook_status := Some 200,
                             webhook_sent_at := Some 8, last_seen_at := 7 \<rparr>,
                        ''c'' \<mapsto> (fetched_row ''c'' ''v1'' 3)
                           \<lparr> webhook_last_updatedAt := Some ''v1'', webhook_status := Some 200,
                             webhook_sent_at := Some 10, last_seen_at := 9 \<rparr>,
                        ''d'' \<mapsto> fetched_row ''d'' ''v1'' 4],
                 kv = [''backfill_done'' \<mapsto> ''1''], tick = 10,
                 posts = [(sample_payload ''a'' ''v1'', Some 200),
                          (sample_payload ''b'' ''v1'', Some 200),
                          (sample_payload ''c'' ''v1'', Some 200)],
                 posts2 = [] \<rparr>,
       failure = None, pages_done = 3, last_cursor = Some ''4'' \<rparr>"
  unfolding four_backfill
  by (simp add: eval_defs four_env_def four_source_def accepting_sink_def
      scan_from.simps fetchWithRetry_from.simps fun_upd_twist)


theorem incrementalScan_bounded_witness:
  "int (pages_done (incrementalScan four_env (final (fullBackfill four_env fresh))))
     \<le> max 0 (MAX_PAGES_PER_RUN four_env)
   \<and> pages_done (incrementalScan four_env (final (fullBackfill four_env fresh))) = 3
   \<and> MAX_PAGES_PER_RUN four_env = 25
   \<and> scan_from four_env 2 (Some ''3'') (fresh\<lparr> db := [''c'' \<mapsto> sample_stored ''c'' ''v1''] \<rparr>) =
       \<lparr> final = fresh\<lparr> db := [''c'' \<mapsto> (sample_stored ''c'' ''v1'')\<lparr> last_seen_at := 1 \<rparr>],
                        tick := 1 \<rparr>,
         failure = None, pages_done = 3, last_cursor = Some ''4'' \<rparr>
   \<and> upToDate (fresh\<lparr> db := [''c'' \<mapsto> (sample_stored ''c'' ''v1'')\<lparr> last_seen_at := 1 \<rparr>],
                        tick := 1 \<rparr>) (sample_lifelog ''c'' ''v1'')"
proof -
  let ?w0 = "fresh\<lparr> db := [''c'' \<mapsto> sample_stored ''c'' ''v1''] \<rparr>"
  let ?w1 = "fresh\<lparr> db := [''c'' \<mapsto> sample_stored ''c'' ''v1''], tick := 1 \<rparr>"
  let ?w2 = "fresh\<lparr> db := [''c'' \<mapsto> (sample_stored ''c'' ''v1'')\<lparr> last_seen_at := 1 \<rparr>],
                        tick := 1 \<rparr>"
  let ?j = "\<lparr> lifelogs = [sample_lifelog ''c'' ''v1''], nextCursor = Some ''4'' \<rparr>"
  note th = incrementalScan_bounded[of four_env "final (fullBackfill four_env fresh)"]
  have m: "MAX_PAGES_PER_RUN four_env = 25" by (simp add: four_env_def plain_env_def)
  have p: "pageStarred four_env (Some ''3'') ?w0 = (?w1, Inr ?j)"
    by (simp add: pageStarred_def fetchWithRetry_def fetchWithRetry_from.simps ok_def
        four_env_def plain_env_def four_source_def fresh_def)
  have f: "for_each (processRecord True four_env) (lifelogs ?j) ?w1 = (?w2, None)"
    by (simp add: eval_defs sample_stored_def four_env_def)
  have u: "upToDate ?w2 (sample_lifelog ''c'' ''v1'')"
    by (simp add: upToDate_def findById_def fresh_def sample_stored_def sample_lifelog_def)
  have c: "4 * length (lifelogs ?j) \<le> 5 * length (filter (upToDate ?w2) (lifelogs ?j))"
    using u by simp
  have A: "scan_from four_env 2 (Some ''3'') ?w0 =
       \<lparr> final = ?w2, failure = None, pages_done = 3, last_cursor = Some ''4'' \<rparr>"
    using th[THEN conjunct2, THEN conjunct1, rule_format, of 2 "Some ''3''" ?w0 ?w1 ?j ?w2]
      p f c m by simp
  have B: "pages_done (incrementalScan four_env (final (fullBackfill four_env fresh))) = 3"
    by (simp add: four_scan)
  show ?thesis using th[THEN conjunct1] A B u m by blast
qed


subsection \<open>A quiet backfill, then the first scan\<close>










end
